theory Spec2Isabelle
  imports Main "HOL-Library.Char_ord" "HOL-Library.List_Lexorder" "HOL-Library.Log_Nat"
    "HOL-Library.AList"
begin

section \<open>Python values\<close>

text \<open>
  A Python \<open>str\<close> is modelled as a \<open>string\<close>. A \<open>char\<close> stands for one code point
  in the range U+0000 .. U+00FF, so \<open>length\<close> counts code points as Python's \<open>len\<close>
  does, and the order of \<open>Char_ord\<close> and \<open>List_Lexorder\<close> is Python's order on
  \<open>str\<close>. Text with code points above U+00FF is outside the model.
\<close>

datatype py_error =
    IndexError
  | KeyError
  | AttributeError
  | ValueError
  | ZeroDivisionError
  | RuntimeError string
  | OSError

abbreviation LF :: char where
  "LF \<equiv> CHR 0x0A"

abbreviation CR :: char where
  "CR \<equiv> CHR 0x0D"

definition isspace :: "char \<Rightarrow> bool" where
  \<comment> \<open>\<open>str.isspace\<close> on one code point below U+0100\<close>
  "isspace c = ((of_char c :: nat) \<in> set [9, 10, 11, 12, 13, 28, 29, 30, 31, 32, 133, 160])"

definition is_linebreak :: "char \<Rightarrow> bool" where
  \<comment> \<open>the line boundaries of \<open>str.splitlines\<close> below U+0100\<close>
  "is_linebreak c = ((of_char c :: nat) \<in> set [10, 11, 12, 13, 28, 29, 30, 133])"

definition lstrip :: "string \<Rightarrow> string" where
  "lstrip s = dropWhile isspace s"

definition rstrip :: "string \<Rightarrow> string" where
  "rstrip s = rev (dropWhile isspace (rev s))"

definition strip :: "string \<Rightarrow> string" where
  "strip s = rstrip (lstrip s)"

definition lower_char :: "char \<Rightarrow> char" where
  \<comment> \<open>\<open>str.lower\<close> on one code point below U+0100: A-Z and the capital letters of
      U+00C0 .. U+00DE (U+00D7, the multiplication sign, is not a letter)\<close>
  "lower_char c =
     (let n = (of_char c :: nat) in
      if (65 \<le> n \<and> n \<le> 90) \<or> (192 \<le> n \<and> n \<le> 222 \<and> n \<noteq> 215)
      then char_of (n + 32) else c)"

definition lower :: "string \<Rightarrow> string" where
  "lower s = map lower_char s"

definition startswith :: "string \<Rightarrow> string \<Rightarrow> bool" where
  "startswith s p = (take (length p) s = p)"

fun join :: "string \<Rightarrow> string list \<Rightarrow> string" where
  "join sep [] = []"
| "join sep [x] = x"
| "join sep (x # y # ys) = x @ sep @ join sep (y # ys)"

text \<open>
  \<open>str.splitlines()\<close>: a line ends at a line boundary, CR LF counts as one boundary,
  and no empty last line is produced when the text ends with a boundary.
  \<open>cur\<close> is the line being read.
\<close>

fun splitlines_from :: "string \<Rightarrow> string \<Rightarrow> string list" where
  "splitlines_from cur [] = (if cur = [] then [] else [cur])"
| "splitlines_from cur [c] = (if is_linebreak c then [cur] else [cur @ [c]])"
| "splitlines_from cur (c # d # cs) =
     (if c = CR \<and> d = LF then cur # splitlines_from [] cs
      else if is_linebreak c then cur # splitlines_from [] (d # cs)
      else splitlines_from (cur @ [c]) (d # cs))"

definition splitlines :: "string \<Rightarrow> string list" where
  "splitlines s = splitlines_from [] s"

definition py_index :: "'a list \<Rightarrow> int \<Rightarrow> py_error + 'a" where
  \<comment> \<open>\<open>xs[i]\<close>: a negative index counts from the end, out of range raises\<close>
  "py_index xs i =
     (if 0 \<le> i \<and> i < int (length xs) then Inr (xs ! nat i)
      else if i < 0 \<and> - int (length xs) \<le> i then Inr (xs ! nat (int (length xs) + i))
      else Inl IndexError)"

section \<open>Python floats\<close>

text \<open>
  A Python \<open>float\<close> is an IEEE 754 binary64 number. \<open>Finite neg a\<close> is the number of
  magnitude \<open>a \<ge> 0\<close> and sign \<open>neg\<close> (so \<open>Finite True 0\<close> is \<open>-0.0\<close>), \<open>Infinity neg\<close>
  an infinity and \<open>NaN\<close> not-a-number. Every operation rounds its exact result to the
  nearest binary64 number, ties to even, with \<open>round_double\<close>: 53 significant bits,
  least exponent \<open>-1022\<close> (subnormal numbers below it), overflow to infinity from
  \<open>2 ^ 1024\<close> on.
\<close>

datatype pyfloat = Finite bool rat | Infinity bool | NaN

definition round_half_even :: "rat \<Rightarrow> int" where
  "round_half_even x =
     (let f = \<lfloor>x\<rfloor>; d = x - of_int f
      in if d < 1 / 2 then f else if 1 / 2 < d then f + 1 else if even f then f else f + 1)"

text \<open>For \<open>a > 0\<close>, \<open>floor_log2 a\<close> is the exponent \<open>e\<close> with \<open>2 ^ e \<le> a < 2 ^ (e + 1)\<close>.\<close>

definition floor_log2 :: "rat \<Rightarrow> int" where
  "floor_log2 a =
     (let d = bitlen (fst (quotient_of a)) - bitlen (snd (quotient_of a))
      in if 2 powi d \<le> a then d else d - 1)"

definition round_double :: "bool \<Rightarrow> rat \<Rightarrow> pyfloat" where
  "round_double neg a =
     (if a = 0 then Finite neg 0
      else let u = 2 powi (max (floor_log2 a) (- 1022) - 52);
               r = of_int (round_half_even (a / u)) * u
           in if 1024 \<le> floor_log2 r then Infinity neg else Finite neg r)"

text \<open>The float nearest to a rational number: a float literal, or an \<open>int\<close> turned into a float.\<close>

definition float_of_rat :: "rat \<Rightarrow> pyfloat" where
  "float_of_rat r = round_double (r < 0) \<bar>r\<bar>"

fun fneg :: "pyfloat \<Rightarrow> pyfloat" where
  "fneg (Finite s a) = Finite (\<not> s) a"
| "fneg (Infinity s) = Infinity (\<not> s)"
| "fneg NaN = NaN"

fun fabs :: "pyfloat \<Rightarrow> pyfloat" where
  "fabs (Finite s a) = Finite False a"
| "fabs (Infinity s) = Infinity False"
| "fabs NaN = NaN"

definition signed :: "bool \<Rightarrow> rat \<Rightarrow> rat" where
  "signed s a = (if s then - a else a)"

fun fadd :: "pyfloat \<Rightarrow> pyfloat \<Rightarrow> pyfloat" where
  "fadd NaN y = NaN"
| "fadd x NaN = NaN"
| "fadd (Infinity s) (Infinity t) = (if s = t then Infinity s else NaN)"
| "fadd (Infinity s) (Finite t b) = Infinity s"
| "fadd (Finite s a) (Infinity t) = Infinity t"
| "fadd (Finite s a) (Finite t b) =
     (let r = signed s a + signed t b
      in if r = 0 then Finite (s \<and> t) 0 else float_of_rat r)"

definition fsub :: "pyfloat \<Rightarrow> pyfloat \<Rightarrow> pyfloat" where
  "fsub x y = fadd x (fneg y)"

fun fmul :: "pyfloat \<Rightarrow> pyfloat \<Rightarrow> pyfloat" where
  "fmul NaN y = NaN"
| "fmul x NaN = NaN"
| "fmul (Infinity s) (Infinity t) = Infinity (s \<noteq> t)"
| "fmul (Infinity s) (Finite t b) = (if b = 0 then NaN else Infinity (s \<noteq> t))"
| "fmul (Finite s a) (Infinity t) = (if a = 0 then NaN else Infinity (s \<noteq> t))"
| "fmul (Finite s a) (Finite t b) = round_double (s \<noteq> t) (a * b)"

text \<open>\<open>x == 0\<close>\<close>

fun is_zero :: "pyfloat \<Rightarrow> bool" where
  "is_zero (Finite s a) = (a = 0)"
| "is_zero x = False"

text \<open>
  \<open>x / y\<close> raises \<open>ZeroDivisionError\<close> when \<open>y\<close> is a zero; \<open>fdiv_nonzero\<close> is the quotient
  for every other divisor.
\<close>

fun fdiv_nonzero :: "pyfloat \<Rightarrow> pyfloat \<Rightarrow> pyfloat" where
  "fdiv_nonzero NaN y = NaN"
| "fdiv_nonzero x NaN = NaN"
| "fdiv_nonzero (Infinity s) (Infinity t) = NaN"
| "fdiv_nonzero (Infinity s) (Finite t b) = Infinity (s \<noteq> t)"
| "fdiv_nonzero (Finite s a) (Infinity t) = Finite (s \<noteq> t) 0"
| "fdiv_nonzero (Finite s a) (Finite t b) = round_double (s \<noteq> t) (a / b)"

definition fdiv :: "pyfloat \<Rightarrow> pyfloat \<Rightarrow> py_error + pyfloat" where
  "fdiv x y = (if is_zero y then Inl ZeroDivisionError else Inr (fdiv_nonzero x y))"

text \<open>\<open>x < y\<close> and \<open>math.isnan\<close>\<close>

fun flt :: "pyfloat \<Rightarrow> pyfloat \<Rightarrow> bool" where
  "flt NaN y = False"
| "flt x NaN = False"
| "flt (Infinity s) (Infinity t) = (s \<and> \<not> t)"
| "flt (Infinity s) (Finite t b) = s"
| "flt (Finite s a) (Infinity t) = (\<not> t)"
| "flt (Finite s a) (Finite t b) = (signed s a < signed t b)"

fun isnan :: "pyfloat \<Rightarrow> bool" where
  "isnan NaN = True"
| "isnan x = False"

section \<open>Formatting and parsing numbers\<close>

text \<open>
  \<open>format_fixed show_plus p x\<close> is \<open>f"{x:.pf}"\<close>, and \<open>f"{x:+.pf}"\<close> when \<open>show_plus\<close>
  holds: the exact value of the float rounded to \<open>p\<close> decimals, ties to even.
\<close>

definition digit_char :: "nat \<Rightarrow> char" where
  "digit_char d = char_of (48 + d)"

fun digits :: "nat \<Rightarrow> string" where
  "digits n = (if n < 10 then [digit_char n] else digits (n div 10) @ [digit_char (n mod 10)])"

declare digits.simps [simp del]

definition sign_prefix :: "bool \<Rightarrow> bool \<Rightarrow> string" where
  "sign_prefix show_plus neg = (if neg then ''-'' else if show_plus then ''+'' else [])"

definition fixed_digits :: "nat \<Rightarrow> rat \<Rightarrow> string" where
  "fixed_digits p a =
     (let n = nat (round_half_even (a * 10 ^ p));
          ip = digits (n div 10 ^ p);
          fp = digits (n mod 10 ^ p)
      in if p = 0 then ip else ip @ ''.'' @ replicate (p - length fp) (CHR ''0'') @ fp)"

definition format_fixed :: "bool \<Rightarrow> nat \<Rightarrow> pyfloat \<Rightarrow> string" where
  "format_fixed show_plus p x =
     (case x of
        Finite s a \<Rightarrow> sign_prefix show_plus s @ fixed_digits p a
      | Infinity s \<Rightarrow> sign_prefix show_plus s @ ''inf''
      | NaN \<Rightarrow> sign_prefix show_plus False @ ''nan'')"

text \<open>
  \<open>float(amount)\<close> for the texts the first group of the patterns below can hold: an
  optional sign, digits, and an optional point followed by digits.
\<close>

definition is_digit :: "char \<Rightarrow> bool" where
  "is_digit c = (CHR ''0'' \<le> c \<and> c \<le> CHR ''9'')"

definition nat_of_digits :: "string \<Rightarrow> nat" where
  "nat_of_digits ds = foldl (\<lambda>n c. 10 * n + (of_char c - 48)) 0 ds"

definition float_of_amount :: "string \<Rightarrow> pyfloat" where
  "float_of_amount s =
     (let neg = (s \<noteq> [] \<and> hd s = CHR ''-'');
          body = (if s \<noteq> [] \<and> (hd s = CHR ''-'' \<or> hd s = CHR ''+'') then tl s else s);
          ip = takeWhile is_digit body;
          fp = drop 1 (dropWhile is_digit body)
      in round_double neg (of_nat (nat_of_digits (ip @ fp)) / 10 ^ length fp))"

text \<open>
  \<open>re.match\<close>, with \<open>re.IGNORECASE\<close>, of the pattern of \<open>parse_duration\<close> and
  \<open>parse_bytes\<close>: a first group of an optional sign, digits, an optional point and at
  least one digit; whitespace; and a second group of alternatives. The match starts
  at the start of the text and asks nothing of what follows it.
  \<open>match_number\<close> is the first group and the text after it. The group is the sign, the
  longest run of digits, and a point with the longest run of digits after it when a
  digit follows the point; without such a point it is the sign and the run of digits,
  which must not be empty. No shorter group can lead to a match, since then a digit or
  a point would follow the group, where the pattern wants whitespace or a unit.
  \<open>match_alternatives\<close> tries the alternatives in their order at the text after the
  whitespace and returns the matched text.
\<close>

definition match_number :: "string \<Rightarrow> (string \<times> string) option" where
  "match_number s =
     (let sg = (if s \<noteq> [] \<and> (hd s = CHR ''-'' \<or> hd s = CHR ''+'') then [hd s] else []);
          r0 = drop (length sg) s;
          d1 = takeWhile is_digit r0;
          r1 = dropWhile is_digit r0;
          r2 = drop 1 r1
      in if r1 \<noteq> [] \<and> hd r1 = CHR ''.'' \<and> r2 \<noteq> [] \<and> is_digit (hd r2)
         then Some (sg @ d1 @ ''.'' @ takeWhile is_digit r2, dropWhile is_digit r2)
         else if d1 \<noteq> [] then Some (sg @ d1, r1)
         else None)"

fun match_alternatives :: "string list \<Rightarrow> string \<Rightarrow> string option" where
  "match_alternatives [] s = None"
| "match_alternatives (a # alts) s =
     (if lower (take (length a) s) = lower a then Some (take (length a) s)
      else match_alternatives alts s)"

definition match_amount_unit :: "string list \<Rightarrow> string \<Rightarrow> (string \<times> string) option" where
  "match_amount_unit alts s =
     (case match_number s of
        None \<Rightarrow> None
      | Some (amount, rest) \<Rightarrow>
          (case match_alternatives alts (dropWhile isspace rest) of
             None \<Rightarrow> None
           | Some u \<Rightarrow> Some (amount, u)))"

text \<open>\<open>s.replace(c, t)\<close> for a pattern \<open>c\<close> of one character\<close>

definition replace_char :: "char \<Rightarrow> string \<Rightarrow> string \<Rightarrow> string" where
  "replace_char c t s = concat (map (\<lambda>x. if x = c then t else [x]) s)"

section \<open>tools/compare\_benchmarks.py\<close>

record BenchmarkResult =
  mean_seconds :: "pyfloat option"
  stddev_seconds :: "pyfloat option"
  allocated_bytes :: "pyfloat option"

definition DURATION_UNITS :: "(string \<times> pyfloat) list" where
  "DURATION_UNITS =
     [(''ns'', float_of_rat (1 / 10 ^ 9)), (''us'', float_of_rat (1 / 10 ^ 6)),
      (''ms'', float_of_rat (1 / 10 ^ 3)), (''s'', Finite False 1)]"

text \<open>
  The argument of \<open>parse_duration\<close> and \<open>parse_bytes\<close> is \<open>None\<close> when Python's \<open>None\<close>
  is passed, as \<open>read_results\<close> can do. The Greek letter mu (U+03BC), which
  \<open>parse_duration\<close> also replaces, is above U+00FF.
\<close>

definition parse_duration :: "string option \<Rightarrow> py_error + pyfloat option" where
  "parse_duration arg =
     (case arg of
        None \<Rightarrow> Inl AttributeError
      | Some text \<Rightarrow>
          (let v = strip text in
           if v = [] then Inr None
           else let cleaned = replace_char (CHR 0xB5) ''u'' (replace_char (CHR '','') [] v) in
             (case match_amount_unit [''ns'', ''us'', ''ms'', ''s''] cleaned of
                None \<Rightarrow> Inr None
              | Some (amount, u) \<Rightarrow>
                  (case map_of DURATION_UNITS (lower u) of
                     None \<Rightarrow> Inl KeyError
                   | Some factor \<Rightarrow> Inr (Some (fmul (float_of_amount amount) factor))))))"

definition BYTE_UNITS :: "(string \<times> pyfloat) list" where
  "BYTE_UNITS = [(''b'', Finite False 1), (''kb'', Finite False 1024), (''mb'', Finite False (1024 * 1024))]"

definition parse_bytes :: "string option \<Rightarrow> py_error + pyfloat option" where
  "parse_bytes arg =
     (case arg of
        None \<Rightarrow> Inl AttributeError
      | Some text \<Rightarrow>
          (let v = strip text in
           if v = [] then Inr None
           else let cleaned = replace_char (CHR '','') [] v in
             (case match_amount_unit [''B'', ''KB'', ''MB''] cleaned of
                None \<Rightarrow> Inr None
              | Some (amount, u) \<Rightarrow>
                  (case map_of BYTE_UNITS (lower u) of
                     None \<Rightarrow> Inl KeyError
                   | Some factor \<Rightarrow> Inr (Some (fmul (float_of_amount amount) factor))))))"

text \<open>
  \<open>read_results\<close> reads the file through \<open>csv.DictReader\<close>. The model starts from the
  records \<open>csv.reader\<close> yields for the file, one list of cells per line. The first
  record holds the field names. \<open>DictReader\<close> skips every empty record and turns each
  other record into a dictionary: \<open>dict(zip(fieldnames, row))\<close>, and when the record is
  shorter than the field names, the value \<open>None\<close> for every field name left over.
  A dictionary is the list of its assignments in their order, so the last one for a
  key is its value. (Surplus cells go under the key \<open>None\<close>, which is never read.)
\<close>

type_synonym csv_dict = "(string \<times> string option) list"

definition dict_rows :: "string list list \<Rightarrow> csv_dict list" where
  "dict_rows records =
     (case records of
        [] \<Rightarrow> []
      | fieldnames # rest \<Rightarrow>
          map (\<lambda>row. zip fieldnames (map Some row)
                      @ map (\<lambda>key. (key, None)) (drop (length row) fieldnames))
              (filter (\<lambda>row. row \<noteq> []) rest))"

text \<open>\<open>row.get(key, "")\<close>\<close>

definition row_get :: "csv_dict \<Rightarrow> string \<Rightarrow> string option" where
  "row_get row key = (case map_of (rev row) key of None \<Rightarrow> Some [] | Some cell \<Rightarrow> cell)"

text \<open>
  \<open>s.strip(chars)\<close>, and the name of a row: the cell under \<open>Method\<close>, stripped of
  whitespace and then of single and double quotes.
\<close>

definition strip_chars :: "string \<Rightarrow> string \<Rightarrow> string" where
  "strip_chars chars s =
     rev (dropWhile (\<lambda>c. c \<in> set chars) (rev (dropWhile (\<lambda>c. c \<in> set chars) s)))"

definition method_name :: "string option \<Rightarrow> py_error + string" where
  "method_name cell =
     (case cell of
        None \<Rightarrow> Inl AttributeError
      | Some text \<Rightarrow> Inr (strip_chars [CHR 0x27, CHR 0x22] (strip text)))"

text \<open>
  A \<open>Dict[str, BenchmarkResult]\<close> is an association list with one entry per key;
  \<open>results[method] = r\<close> is \<open>AList.update\<close>.
\<close>

type_synonym results = "(string \<times> BenchmarkResult) list"

fun read_rows :: "results \<Rightarrow> csv_dict list \<Rightarrow> py_error + results" where
  "read_rows res [] = Inr res"
| "read_rows res (row # rows) =
     (case method_name (row_get row ''Method'') of
        Inl e \<Rightarrow> Inl e
      | Inr method \<Rightarrow>
     (case parse_duration (row_get row ''Mean'') of
        Inl e \<Rightarrow> Inl e
      | Inr mean \<Rightarrow>
     (case parse_duration (row_get row ''StdDev'') of
        Inl e \<Rightarrow> Inl e
      | Inr stddev \<Rightarrow>
     (case parse_bytes (row_get row ''Allocated'') of
        Inl e \<Rightarrow> Inl e
      | Inr alloc \<Rightarrow>
          read_rows
            (AList.update method
               \<lparr>mean_seconds = mean, stddev_seconds = stddev, allocated_bytes = alloc\<rparr> res)
            rows))))"

definition read_results :: "string list list \<Rightarrow> py_error + results" where
  "read_results records = read_rows [] (dict_rows records)"

definition format_duration :: "pyfloat option \<Rightarrow> string" where
  "format_duration arg =
     (case arg of
        None \<Rightarrow> ''n/a''
      | Some seconds \<Rightarrow>
          if isnan seconds then ''n/a''
          else let abs_val = fabs seconds in
            if flt abs_val (float_of_rat (1 / 10 ^ 6))
            then format_fixed False 3 (fmul seconds (Finite False (10 ^ 9))) @ '' ns''
            else if flt abs_val (float_of_rat (1 / 10 ^ 3))
            then format_fixed False 3 (fmul seconds (Finite False (10 ^ 6))) @ '' us''
            else if flt abs_val (Finite False 1)
            then format_fixed False 3 (fmul seconds (Finite False (10 ^ 3))) @ '' ms''
            else format_fixed False 3 seconds @ '' s'')"

text \<open>The divisor in \<open>format_bytes\<close> is the literal 1024, so the division cannot raise.\<close>

definition format_bytes :: "pyfloat option \<Rightarrow> string" where
  "format_bytes arg =
     (case arg of
        None \<Rightarrow> ''n/a''
      | Some v \<Rightarrow>
          if isnan v then ''n/a''
          else let abs_val = fabs v in
            if flt abs_val (Finite False 1024) then format_fixed False 0 v @ '' B''
            else if flt abs_val (Finite False (1024 * 1024))
            then format_fixed False 1 (fdiv_nonzero v (Finite False 1024)) @ '' KB''
            else format_fixed False 2
                   (fdiv_nonzero (fdiv_nonzero v (Finite False 1024)) (Finite False 1024)) @ '' MB'')"

definition pct_delta :: "pyfloat option \<Rightarrow> pyfloat option \<Rightarrow> py_error + string" where
  "pct_delta old new =
     (case (old, new) of
        (Some x, Some y) \<Rightarrow>
          if is_zero x then Inr ''n/a''
          else (case fdiv (fsub y x) x of
                  Inl e \<Rightarrow> Inl e
                | Inr q \<Rightarrow> Inr (format_fixed True 1 (fmul q (Finite False 100)) @ ''%''))
      | _ \<Rightarrow> Inr ''n/a'')"

definition headers :: "string list" where
  "headers = [''Benchmark'', ''Base Mean'', ''New Mean'', ''Mean Delta'',
              ''Base Alloc'', ''New Alloc'', ''Alloc Delta'']"

text \<open>The cells of the row \<open>build_table\<close> appends for \<open>name\<close>.\<close>

definition table_row :: "results \<Rightarrow> results \<Rightarrow> string \<Rightarrow> py_error + string list" where
  "table_row base new name =
     (let base_result = map_of base name;
          new_result = map_of new name;
          base_mean = (case base_result of None \<Rightarrow> None | Some r \<Rightarrow> mean_seconds r);
          new_mean = (case new_result of None \<Rightarrow> None | Some r \<Rightarrow> mean_seconds r);
          base_alloc = (case base_result of None \<Rightarrow> None | Some r \<Rightarrow> allocated_bytes r);
          new_alloc = (case new_result of None \<Rightarrow> None | Some r \<Rightarrow> allocated_bytes r)
      in case pct_delta base_mean new_mean of
           Inl e \<Rightarrow> Inl e
         | Inr mean_delta \<Rightarrow>
             (case pct_delta base_alloc new_alloc of
                Inl e \<Rightarrow> Inl e
              | Inr alloc_delta \<Rightarrow>
                  Inr [if name = [] then ''(unknown)'' else name,
                       format_duration base_mean, format_duration new_mean, mean_delta,
                       format_bytes base_alloc, format_bytes new_alloc, alloc_delta]))"

text \<open>\<open>sorted(set(base) | set(new))\<close>\<close>

definition sorted_names :: "results \<Rightarrow> results \<Rightarrow> string list" where
  "sorted_names base new = sort (remdups (map fst base @ map fst new))"

text \<open>A loop or comprehension over \<open>xs\<close> whose body \<open>f\<close> can raise: the first error ends it.\<close>

fun collect :: "('a \<Rightarrow> py_error + 'b) \<Rightarrow> 'a list \<Rightarrow> py_error + 'b list" where
  "collect f [] = Inr []"
| "collect f (x # xs) =
     (case f x of
        Inl e \<Rightarrow> Inl e
      | Inr y \<Rightarrow> (case collect f xs of Inl e \<Rightarrow> Inl e | Inr ys \<Rightarrow> Inr (y # ys)))"

text \<open>\<open>max(len(row[i]) for row in rows)\<close>\<close>

definition column_width :: "string list list \<Rightarrow> nat \<Rightarrow> py_error + nat" where
  "column_width rows i =
     (case collect (\<lambda>row. py_index row (int i)) rows of
        Inl e \<Rightarrow> Inl e
      | Inr cells \<Rightarrow> if cells = [] then Inl ValueError else Inr (Max (set (map length cells))))"

definition ljust :: "nat \<Rightarrow> string \<Rightarrow> string" where
  "ljust w s = s @ replicate (w - length s) (CHR '' '')"

text \<open>\<open>"  ".join(cell.ljust(widths[i]) for i, cell in enumerate(row))\<close>\<close>

definition render_row :: "nat list \<Rightarrow> string list \<Rightarrow> py_error + string" where
  "render_row widths row =
     (case collect (\<lambda>(i, cell). case py_index widths (int i) of
                                   Inl e \<Rightarrow> Inl e
                                 | Inr w \<Rightarrow> Inr (ljust w cell))
                   (enumerate 0 row) of
        Inl e \<Rightarrow> Inl e
      | Inr padded \<Rightarrow> Inr (join ''  '' padded))"

text \<open>The loop over \<open>enumerate(rows)\<close> that fills \<open>lines\<close>, from index \<open>idx\<close> on.\<close>

fun render_rows :: "nat list \<Rightarrow> nat \<Rightarrow> string list list \<Rightarrow> py_error + string list" where
  "render_rows widths idx [] = Inr []"
| "render_rows widths idx (row # rows) =
     (case render_row widths row of
        Inl e \<Rightarrow> Inl e
      | Inr line \<Rightarrow>
          (case render_rows widths (Suc idx) rows of
             Inl e \<Rightarrow> Inl e
           | Inr rest \<Rightarrow>
               Inr (line # (if idx = 0 then [replicate (length line) (CHR ''-'')] else []) @ rest)))"

text \<open>\<open>table_lines\<close> is the list \<open>lines\<close> of \<open>build_table\<close>, which returns \<open>"\n".join(lines)\<close>.\<close>

definition table_lines :: "results \<Rightarrow> results \<Rightarrow> py_error + string list" where
  "table_lines base new =
     (case collect (table_row base new) (sorted_names base new) of
        Inl e \<Rightarrow> Inl e
      | Inr body \<Rightarrow>
          (let rows = headers # body in
           case collect (column_width rows) [0..<length headers] of
             Inl e \<Rightarrow> Inl e
           | Inr widths \<Rightarrow> render_rows widths 0 rows))"





section \<open>The trailer editor (tools/jj\_benchmark\_trailer.py)\<close>

definition is_alnum :: "char \<Rightarrow> bool" where
  \<comment> \<open>the class \<open>[A-Za-z0-9]\<close>\<close>
  "is_alnum c =
     ((CHR ''A'' \<le> c \<and> c \<le> CHR ''Z'') \<or> (CHR ''a'' \<le> c \<and> c \<le> CHR ''z'')
      \<or> (CHR ''0'' \<le> c \<and> c \<le> CHR ''9''))"

definition is_key_char :: "char \<Rightarrow> bool" where
  \<comment> \<open>the class \<open>[A-Za-z0-9-]\<close>\<close>
  "is_key_char c = (is_alnum c \<or> c = CHR ''-'')"

text \<open>
  \<open>trailer_pattern.match(s)\<close> for the pattern \<open>^[A-Za-z0-9][A-Za-z0-9-]*:\<close>.
  The colon is not in the class of the starred item, so the only way to match is to
  let the star take every character of the class and find the colon next.
\<close>

definition trailer_pattern :: "string \<Rightarrow> bool" where
  "trailer_pattern s =
     (case s of
        [] \<Rightarrow> False
      | c # cs \<Rightarrow>
          is_alnum c \<and>
          (case dropWhile is_key_char cs of [] \<Rightarrow> False | d # _ \<Rightarrow> d = CHR '':''))"

text \<open>
  The loop \<open>while trailer_start > 0 and trailer_pattern.match(lines[trailer_start - 1].strip())\<close>,
  started at \<open>trailer_start\<close>.
\<close>

fun trailer_scan :: "string list \<Rightarrow> nat \<Rightarrow> py_error + nat" where
  "trailer_scan lines 0 = Inr 0"
| "trailer_scan lines (Suc n) =
     (case py_index lines (int n) of
        Inl e \<Rightarrow> Inl e
      | Inr line \<Rightarrow>
          if trailer_pattern (strip line) then trailer_scan lines n else Inr (Suc n))"

text \<open>
  The first half of \<open>update_trailer\<close>: the lines of the description without its
  trailing whitespace, cut into \<open>body\<close> and \<open>trailers\<close> at \<open>trailer_start\<close>.
\<close>

definition split_trailers :: "string \<Rightarrow> py_error + (string list \<times> string list)" where
  "split_trailers existing =
     (let lines = splitlines (rstrip existing) in
      case trailer_scan lines (length lines) of
        Inl e \<Rightarrow> Inl e
      | Inr trailer_start \<Rightarrow> Inr (take trailer_start lines, drop trailer_start lines))"

definition has_key :: "string \<Rightarrow> string \<Rightarrow> bool" where
  \<comment> \<open>\<open>line.lower().startswith(f"{key.lower()}:")\<close>\<close>
  "has_key key line = startswith (lower line) (lower key @ '':'')"

definition update_trailer :: "string \<Rightarrow> string \<Rightarrow> string \<Rightarrow> py_error + string" where
  "update_trailer existing key v =
     (case split_trailers existing of
        Inl e \<Rightarrow> Inl e
      | Inr (body, trailers0) \<Rightarrow>
          (let trailers = filter (\<lambda>line. \<not> has_key key line) trailers0 @ [key @ '': '' @ v];
               body_text = rstrip (join [LF] body);
               trailer_text = rstrip (join [LF] trailers)
           in if body_text \<noteq> [] \<and> trailer_text \<noteq> []
              then Inr (body_text @ [LF, LF] @ trailer_text @ [LF])
              else if trailer_text \<noteq> [] then Inr (trailer_text @ [LF])
              else Inr (body_text @ [LF])))"

section \<open>The run orchestrator (tools/jj\_benchmark\_trailer.py)\<close>

text \<open>
  The orchestrator acts on the world by running commands, copying files and printing.
  A run is modelled by the list of these events in the order they happen. What the
  world answers is given by an environment \<open>E\<close>, which may depend on everything that
  happened before: the exit status and the captured output of a command, whether the
  report of the harness exists, whether a copy succeeds, and the records of a file.
  A function takes the events so far and returns its result, or the exception it
  raises, with the events extended.
\<close>

datatype event =
    Printed string
  | Ran "string list" int
  | Copied string string
  | Removed string

record env =
  root :: string
  tmp_name :: string
  returncode :: "event list \<Rightarrow> string list \<Rightarrow> int"
  captured_stdout :: "event list \<Rightarrow> string list \<Rightarrow> string"
  captured_stderr :: "event list \<Rightarrow> string list \<Rightarrow> string"
  csv_exists :: "event list \<Rightarrow> bool"
  copy_ok :: "event list \<Rightarrow> string \<Rightarrow> string \<Rightarrow> bool"
  file_records :: "event list \<Rightarrow> string \<Rightarrow> py_error + string list list"



abbreviation JJ_NEW :: "string list" where
  "JJ_NEW \<equiv> [''jj'', ''new'', ''@-'']"

abbreviation JJ_UNDO :: "string list" where
  "JJ_UNDO \<equiv> [''jj'', ''undo'']"


definition show_int :: "int \<Rightarrow> string" where
  "show_int i = (if i < 0 then ''-'' else []) @ digits (nat \<bar>i\<bar>)"

text \<open>
  \<open>run(cmd, capture=...)\<close>. When the command fails, \<open>run\<close> first reads
  \<open>result.stderr.strip()\<close>; without capture \<open>result.stderr\<close> is \<open>None\<close>, and the read
  raises \<open>AttributeError\<close> before the \<open>RuntimeError\<close> is built.
  The result is the captured standard output, \<open>None\<close> without capture.
\<close>

definition run :: "env \<Rightarrow> string list \<Rightarrow> bool \<Rightarrow> event list \<Rightarrow> (py_error + string option) \<times> event list" where
  "run E cmd capture tr =
     (let rc = returncode E tr cmd;
          tr' = tr @ [Ran cmd rc]
      in if rc \<noteq> 0
         then if capture
              then (Inl (RuntimeError
                      (''Command failed ('' @ show_int rc @ ''): '' @ join '' '' cmd
                       @ [LF] @ ''stdout:'' @ [LF] @ strip (captured_stdout E tr cmd)
                       @ [LF, LF] @ ''stderr:'' @ [LF] @ strip (captured_stderr E tr cmd))), tr')
              else (Inl AttributeError, tr')
         else (Inr (if capture then Some (captured_stdout E tr cmd) else None), tr'))"













section \<open>Notions used in the statements\<close>

text \<open>Events that leave the working copy alone: no \<open>jj new @-\<close> and no \<open>jj undo\<close> among them.\<close>

definition quiet :: "event list \<Rightarrow> bool" where
  "quiet evs = (\<forall>rc. Ran JJ_NEW rc \<notin> set evs \<and> Ran JJ_UNDO rc \<notin> set evs)"

text \<open>
  From the spec: the unit \<open>format_duration\<close> selects, the largest in which the magnitude
  is still at least 1, going up from \<open>ns\<close> by the thresholds \<open>1e-6\<close>, \<open>1e-3\<close> and \<open>1\<close>; and
  the length of a unit in seconds.
\<close>

definition selected_unit :: "pyfloat \<Rightarrow> string" where
  "selected_unit x =
     (if flt (fabs x) (float_of_rat (1 / 10 ^ 6)) then ''ns''
      else if flt (fabs x) (float_of_rat (1 / 10 ^ 3)) then ''us''
      else if flt (fabs x) (Finite False 1) then ''ms''
      else ''s'')"

definition unit_seconds :: "string \<Rightarrow> rat" where
  "unit_seconds u =
     (if u = ''ns'' then 1 / 10 ^ 9 else if u = ''us'' then 1 / 10 ^ 6
      else if u = ''ms'' then 1 / 10 ^ 3 else 1)"

section \<open>Properties of the string operations\<close>

lemma rstrip_Nil [simp]: "rstrip [] = []"
  by (simp add: rstrip_def)

lemma rstrip_append_keep:
  "rstrip t \<noteq> [] \<Longrightarrow> rstrip (s @ t) = s @ rstrip t"
  by (auto simp: rstrip_def dropWhile_append)

lemma rstrip_snoc_nonspace [simp]: "\<not> isspace c \<Longrightarrow> rstrip (s @ [c]) = s @ [c]"
  by (simp add: rstrip_def)

lemma rstrip_snoc_space [simp]: "isspace c \<Longrightarrow> rstrip (s @ [c]) = rstrip s"
  by (simp add: rstrip_def)

lemma rstrip_last_nonspace: "rstrip s \<noteq> [] \<Longrightarrow> \<not> isspace (last (rstrip s))"
proof (induction s rule: rev_induct)
  case Nil
  then show ?case by simp
next
  case (snoc x xs)
  then show ?case by (cases "isspace x") simp_all
qed

lemma rstrip_nonspace_inside: "\<not> isspace c \<Longrightarrow> rstrip (s @ c # t) \<noteq> []"
  by (auto simp: rstrip_def dropWhile_eq_Nil_conv)

lemma isspace_LF [simp]: "isspace LF"
  by (simp add: isspace_def)

lemma trailer_scan_total:
  "n \<le> length lines \<Longrightarrow> \<exists>m\<le>n. trailer_scan lines n = Inr m"
proof (induction n)
  case 0
  then show ?case by simp
next
  case (Suc n)
  then have "py_index lines (int n) = Inr (lines ! n)"
    by (simp add: py_index_def)
  with Suc show ?case
    by (cases "trailer_pattern (strip (lines ! n))") auto
qed

lemma split_trailers_total: "\<exists>body trailers. split_trailers existing = Inr (body, trailers)"
proof -
  obtain m where "trailer_scan (splitlines (rstrip existing)) (length (splitlines (rstrip existing))) = Inr m"
    using trailer_scan_total [of "length (splitlines (rstrip existing))" "splitlines (rstrip existing)"]
    by auto
  then show ?thesis
    by (simp add: split_trailers_def Let_def)
qed

lemma join_snoc: "xs \<noteq> [] \<Longrightarrow> join sep (xs @ [x]) = join sep xs @ sep @ x"
  by (induction sep xs rule: join.induct) auto

lemma trailer_text_nonempty:
  "rstrip (join [LF] (ts @ [key @ '': '' @ v])) \<noteq> []"
proof -
  have colon: "\<not> isspace (CHR '':'')"
    by (simp add: isspace_def)
  have "join [LF] (ts @ [key @ '': '' @ v])
      = ((if ts = [] then [] else join [LF] ts @ [LF]) @ key) @ CHR '':'' # ('' '' @ v)"
    by (simp add: join_snoc)
  then obtain p t where "join [LF] (ts @ [key @ '': '' @ v]) = p @ CHR '':'' # t"
    by blast
  then show ?thesis
    using rstrip_nonspace_inside [OF colon, of p t] by simp
qed

lemma update_trailer_returns: "\<exists>out. update_trailer existing key v = Inr out"
proof -
  obtain body trailers where "split_trailers existing = Inr (body, trailers)"
    using split_trailers_total by blast
  then show ?thesis
    by (simp add: update_trailer_def Let_def)
qed

section \<open>The trailer editor is total\<close>

text \<open>
  Claim C7. For every description, key and value, \<open>update_trailer\<close> returns a string:
  the only operation in it that can raise, the read of \<open>lines[trailer_start - 1]\<close>,
  always stays in range.
\<close>

theorem update_trailer_total: "\<exists>out. update_trailer existing key v = Inr out"
  by (rule update_trailer_returns)

text \<open>
  Claim C10. The string \<open>update_trailer\<close> returns is a non-empty text followed by one
  newline; the character before that newline is not whitespace, so the result never
  ends in a blank line or a second newline, whatever the description was.
\<close>

theorem update_trailer_ends_with_one_newline:
  "\<exists>s. update_trailer existing key v = Inr (s @ [LF]) \<and> s \<noteq> [] \<and> \<not> isspace (last s)"
proof -
  obtain body trailers0 where split: "split_trailers existing = Inr (body, trailers0)"
    using split_trailers_total by blast
  define trailer_text where
    "trailer_text = rstrip (join [LF] (filter (\<lambda>line. \<not> has_key key line) trailers0 @ [key @ '': '' @ v]))"
  have ne: "trailer_text \<noteq> []"
    unfolding trailer_text_def by (rule trailer_text_nonempty)
  then have nsp: "\<not> isspace (last trailer_text)"
    unfolding trailer_text_def by (rule rstrip_last_nonspace)
  show ?thesis
  proof (cases "rstrip (join [LF] body) = []")
    case True
    with split ne nsp show ?thesis
      by (simp add: update_trailer_def Let_def trailer_text_def)
  next
    case False
    with split ne have "update_trailer existing key v
        = Inr ((rstrip (join [LF] body) @ [LF, LF] @ trailer_text) @ [LF])"
      by (simp add: update_trailer_def Let_def trailer_text_def)
    with ne nsp show ?thesis
      by (metis append_is_Nil_conv last_append)
  qed
qed

section \<open>Replacing a trailer twice\<close>

text \<open>
  Claim C1. The description \<open>Fix\<close>, an empty line, and the line \<open> Benchmark: old\<close> with
  a space before the key. The loop that finds the trailer block tests the line without
  its surrounding whitespace, so this line is in the block; the filter that drops the
  old lines of the key tests the line as it is, so the line stays. After
  \<open>apply(apply(D, k, v1), k, v2)\<close> with the key \<open>Benchmark\<close> the trailer block of the
  result, as \<open>update_trailer\<close> itself cuts it out, holds two lines with the key
  \<open>Benchmark\<close>: the old one and the new one.
\<close>

theorem update_trailer_twice_indented:
  "update_trailer (''Fix'' @ [LF, LF] @ '' Benchmark: old'' @ [LF]) ''Benchmark'' ''v1''
     = Inr (''Fix'' @ [LF, LF] @ '' Benchmark: old'' @ [LF] @ ''Benchmark: v1'' @ [LF]) \<and>
   update_trailer (''Fix'' @ [LF, LF] @ '' Benchmark: old'' @ [LF] @ ''Benchmark: v1'' @ [LF])
       ''Benchmark'' ''v2''
     = Inr (''Fix'' @ [LF, LF] @ '' Benchmark: old'' @ [LF] @ ''Benchmark: v2'' @ [LF]) \<and>
   split_trailers (''Fix'' @ [LF, LF] @ '' Benchmark: old'' @ [LF] @ ''Benchmark: v2'' @ [LF])
     = Inr ([''Fix'', []], ['' Benchmark: old'', ''Benchmark: v2'']) \<and>
   trailer_pattern (strip '' Benchmark: old'') \<and>
   has_key ''Benchmark'' (strip '' Benchmark: old'') \<and>
   \<not> has_key ''Benchmark'' '' Benchmark: old'' \<and>
   trailer_pattern (strip ''Benchmark: v2'') \<and>
   has_key ''Benchmark'' (strip ''Benchmark: v2'')"
  by code_simp

section \<open>The comparison table\<close>

lemma collect_map:
  "(\<And>x. x \<in> set xs \<Longrightarrow> f x = Inr (g x)) \<Longrightarrow> collect f xs = Inr (map g xs)"
  by (induction xs) simp_all

lemma fdiv_nonzero_divisor: "\<not> is_zero y \<Longrightarrow> fdiv x y = Inr (fdiv_nonzero x y)"
  by (simp add: fdiv_def)

lemma pct_delta_returns: "\<exists>s. pct_delta old new = Inr s"
  by (auto simp: pct_delta_def fdiv_def split: option.splits)

lemma table_row_returns:
  "\<exists>c0 c1 c2 c3 c4 c5 c6. table_row base new name = Inr [c0, c1, c2, c3, c4, c5, c6]"
proof -
  obtain d1 where d1: "pct_delta
      (case map_of base name of None \<Rightarrow> None | Some r \<Rightarrow> mean_seconds r)
      (case map_of new name of None \<Rightarrow> None | Some r \<Rightarrow> mean_seconds r) = Inr d1"
    using pct_delta_returns by blast
  obtain d2 where d2: "pct_delta
      (case map_of base name of None \<Rightarrow> None | Some r \<Rightarrow> allocated_bytes r)
      (case map_of new name of None \<Rightarrow> None | Some r \<Rightarrow> allocated_bytes r) = Inr d2"
    using pct_delta_returns by blast
  show ?thesis
    by (simp add: table_row_def Let_def d1 d2)
qed

lemma collect_returns:
  "(\<And>x. x \<in> set xs \<Longrightarrow> \<exists>y. f x = Inr y \<and> P y) \<Longrightarrow>
   \<exists>ys. collect f xs = Inr ys \<and> length ys = length xs \<and> list_all P ys"
proof (induction xs)
  case Nil
  then show ?case by simp
next
  case (Cons x xs)
  then obtain y where y: "f x = Inr y" "P y" by auto
  from Cons obtain ys where "collect f xs = Inr ys" "length ys = length xs" "list_all P ys"
    by auto
  with y show ?case by simp
qed

lemma table_body_returns:
  "\<exists>body. collect (table_row base new) names = Inr body \<and> length body = length names
     \<and> list_all (\<lambda>row. length row = 7) body"
  by (rule collect_returns) (use table_row_returns in fastforce)

lemma py_index_in_range: "i < length xs \<Longrightarrow> py_index xs (int i) = Inr (xs ! i)"
  by (simp add: py_index_def)

lemma column_width_eq:
  assumes "rows \<noteq> []" "list_all (\<lambda>row. i < length row) rows"
  shows "column_width rows i = Inr (Max (set (map (\<lambda>row. length (row ! i)) rows)))"
proof -
  have "collect (\<lambda>row. py_index row (int i)) rows = Inr (map (\<lambda>row. row ! i) rows)"
    using assms(2) by (intro collect_map) (simp add: list_all_iff py_index_in_range)
  with assms(1) show ?thesis
    by (simp add: column_width_def comp_def)
qed

lemma collect_enumerate:
  "length row \<le> length ws - n \<Longrightarrow> n \<le> length ws \<Longrightarrow>
   collect (\<lambda>(i, cell). case py_index ws (int i) of Inl e \<Rightarrow> Inl e | Inr w \<Rightarrow> Inr (ljust w cell))
           (enumerate n row)
   = Inr (map (\<lambda>(w, cell). ljust w cell) (zip (drop n ws) row))"
proof (induction row arbitrary: n)
  case Nil
  then show ?case by simp
next
  case (Cons c row)
  then have n: "n < length ws" by auto
  then have "drop n ws = ws ! n # drop (Suc n) ws"
    by (simp add: Cons_nth_drop_Suc)
  moreover have "length row \<le> length ws - Suc n" "Suc n \<le> length ws"
    using Cons.prems by auto
  ultimately show ?case
    using Cons.IH [of "Suc n"] n by (simp add: py_index_in_range)
qed

lemma render_row_eq:
  "length row \<le> length ws \<Longrightarrow>
   render_row ws row = Inr (join ''  '' (map (\<lambda>(w, cell). ljust w cell) (zip ws row)))"
  using collect_enumerate [of row ws 0] by (simp add: render_row_def)

lemma render_rows_later:
  "list_all (\<lambda>row. length row \<le> length ws) rows \<Longrightarrow>
   render_rows ws (Suc n) rows
   = Inr (map (\<lambda>row. join ''  '' (map (\<lambda>(w, cell). ljust w cell) (zip ws row))) rows)"
  by (induction rows arbitrary: n) (simp_all add: render_row_eq)

lemma render_rows_first:
  "list_all (\<lambda>row. length row \<le> length ws) (r # rows) \<Longrightarrow>
   render_rows ws 0 (r # rows)
   = Inr (join ''  '' (map (\<lambda>(w, cell). ljust w cell) (zip ws r))
          # replicate (length (join ''  '' (map (\<lambda>(w, cell). ljust w cell) (zip ws r)))) (CHR ''-'')
          # map (\<lambda>row. join ''  '' (map (\<lambda>(w, cell). ljust w cell) (zip ws row))) rows)"
  by (simp add: render_row_eq render_rows_later)

lemma round_double_zero [simp]: "round_double s 0 = Finite s 0"
  by (simp add: round_double_def)




lemma pct_delta_None [simp]: "pct_delta None new = Inr ''n/a''" "pct_delta old None = Inr ''n/a''"
  by (simp_all add: pct_delta_def split: option.splits)



lemma table_lines_shape:
  "\<exists>body. collect (table_row base new) (sorted_names base new) = Inr body \<and>
     (let rows = headers # body;
          widths = map (\<lambda>i. Max (set (map (\<lambda>row. length (row ! i)) rows))) [0..<7];
          line = (\<lambda>row. join ''  '' (map (\<lambda>(w, cell). ljust w cell) (zip widths row)))
      in list_all (\<lambda>row. length row = 7) rows \<and>
         table_lines base new
           = Inr (line headers # replicate (length (line headers)) (CHR ''-'') # map line body))"
proof -
  obtain body where body: "collect (table_row base new) (sorted_names base new) = Inr body"
    and seven: "list_all (\<lambda>row. length row = 7) body"
    using table_body_returns by blast
  define rows where "rows = headers # body"
  define widths where "widths = map (\<lambda>i. Max (set (map (\<lambda>row. length (row ! i)) rows))) [0..<7]"
  have hl: "length headers = 7"
    by (simp add: headers_def)
  have rows7: "list_all (\<lambda>row. length row = 7) rows"
    using seven hl by (simp add: rows_def)
  have "collect (column_width rows) [0..<7] = Inr widths"
    unfolding widths_def
  proof (rule collect_map)
    fix i assume "i \<in> set [0..<7]"
    then have "list_all (\<lambda>row. i < length row) rows"
      using rows7 by (auto simp: list_all_iff)
    then show "column_width rows i = Inr (Max (set (map (\<lambda>row. length (row ! i)) rows)))"
      by (intro column_width_eq) (simp_all add: rows_def)
  qed
  moreover have "list_all (\<lambda>row. length row \<le> length widths) (headers # body)"
    using rows7 by (simp add: widths_def rows_def list_all_iff)
  ultimately have "table_lines base new
      = Inr (join ''  '' (map (\<lambda>(w, cell). ljust w cell) (zip widths headers))
          # replicate (length (join ''  '' (map (\<lambda>(w, cell). ljust w cell) (zip widths headers)))) (CHR ''-'')
          # map (\<lambda>row. join ''  '' (map (\<lambda>(w, cell). ljust w cell) (zip widths row))) body)"
    using render_rows_first [of widths headers body]
    by (simp add: table_lines_def body Let_def hl rows_def [symmetric])
  with body rows7 show ?thesis
    unfolding Let_def widths_def rows_def by blast
qed



text \<open>
  Claim C5, as the code has it. \<open>build_table\<close> never raises while it lays the table out.
  Every row, the header row included, has seven cells. The width of a column is the
  greatest length of its cells, the header's among them. A line is made of the cells
  of a row, each left-justified in its column, that is, followed by spaces up to the
  width of the column (\<open>str.ljust\<close>), with two spaces between neighbours. The lines are
  the header line, one line of dashes as long as the header line, and then the lines
  of the other rows in their order, with no line of dashes among them.
\<close>

theorem table_layout:
  "\<exists>body. collect (table_row base new) (sorted_names base new) = Inr body \<and>
     (let rows = headers # body;
          widths = map (\<lambda>i. Max (set (map (\<lambda>row. length (row ! i)) rows))) [0..<7];
          line = (\<lambda>row. join ''  '' (map (\<lambda>(w, cell). ljust w cell) (zip widths row)))
      in list_all (\<lambda>row. length row = 7) rows \<and>
         table_lines base new
           = Inr (line headers # replicate (length (line headers)) (CHR ''-'') # map line body))"
  by (rule table_lines_shape)

theorem table_layout_witness:
  "\<exists>body. collect (table_row [(''Foo'', \<lparr>mean_seconds = None, stddev_seconds = None, allocated_bytes = None\<rparr>)] []) (sorted_names [(''Foo'', \<lparr>mean_seconds = None, stddev_seconds = None, allocated_bytes = None\<rparr>)] []) = Inr body \<and>
     (let rows = headers # body;
          widths = map (\<lambda>i. Max (set (map (\<lambda>row. length (row ! i)) rows))) [0..<7];
          line = (\<lambda>row. join ''  '' (map (\<lambda>(w, cell). ljust w cell) (zip widths row)))
      in list_all (\<lambda>row. length row = 7) rows \<and>
         table_lines [(''Foo'', \<lparr>mean_seconds = None, stddev_seconds = None, allocated_bytes = None\<rparr>)] []
           = Inr (line headers # replicate (length (line headers)) (CHR ''-'') # map line body))"
  by (rule table_layout)

text \<open>
  The spec says that cells are left-padded. In a column wider than a cell the code puts
  the padding after the cell, not before it: under the header \<open>Benchmark\<close>, of width 9,
  the name \<open>Foo\<close> is written as \<open>Foo\<close> and six spaces.
\<close>

theorem table_layout_counterexample:
  "table_lines [(''Foo'', \<lparr>mean_seconds = None, stddev_seconds = None, allocated_bytes = None\<rparr>)] [(''Foo'', \<lparr>mean_seconds = None, stddev_seconds = None, allocated_bytes = None\<rparr>)]
     = Inr [''Benchmark  Base Mean  New Mean  Mean Delta  Base Alloc  New Alloc  Alloc Delta'',
            ''------------------------------------------------------------------------------'',
            ''Foo        n/a        n/a       n/a         n/a         n/a        n/a        '']
   \<and> take 9 ''Foo        n/a        n/a       n/a         n/a         n/a        n/a        ''
       \<noteq> replicate 6 (CHR '' '') @ ''Foo''"
  by code_simp




section \<open>Parsing a number with a unit\<close>

lemma lower_char_cases:
  "lower_char c = c \<or> (of_char (lower_char c) :: nat) = of_char c + 32"
  by (auto simp: lower_char_def Let_def)

lemma unit_letter_plain:
  assumes "lower_char c = x" "x \<in> set ''nusmbk''"
  shows "\<not> isspace c" "\<not> is_digit c" "c \<noteq> CHR ''.''" "c \<noteq> CHR ''-''" "c \<noteq> CHR ''+''"
proof -
  have "(of_char c :: nat) \<in> {110, 117, 115, 109, 98, 107, 78, 85, 83, 77, 66, 75}"
    using lower_char_cases [of c] assms by auto
  then show "\<not> isspace c" "\<not> is_digit c" "c \<noteq> CHR ''.''" "c \<noteq> CHR ''-''" "c \<noteq> CHR ''+''"
    by (auto simp: isspace_def is_digit_def less_eq_char_def)
qed

lemma lower_Cons [simp]: "lower (c # cs) = lower_char c # lower cs"
  by (simp add: lower_def)

lemma lower_Nil [simp]: "lower [] = []"
  by (simp add: lower_def)

lemma lower_eq_Cons: "lower u = x # xs \<longleftrightarrow> (\<exists>c cs. u = c # cs \<and> lower_char c = x \<and> lower cs = xs)"
  by (cases u) auto

lemma lower_eq_Nil [simp]: "lower u = [] \<longleftrightarrow> u = []"
  by (simp add: lower_def)

lemma lower_char_letters [simp]:
  "lower_char (CHR ''B'') = CHR ''b''" "lower_char (CHR ''K'') = CHR ''k''"
  "lower_char (CHR ''M'') = CHR ''m''" "lower_char (CHR ''n'') = CHR ''n''"
  "lower_char (CHR ''u'') = CHR ''u''" "lower_char (CHR ''m'') = CHR ''m''"
  "lower_char (CHR ''s'') = CHR ''s''"
  by code_simp+

lemma duration_unit_match:
  assumes "map_of DURATION_UNITS (lower u) = Some f"
  shows "match_alternatives [''ns'', ''us'', ''ms'', ''s''] (u @ rest) = Some u"
    and "\<exists>c cs. u = c # cs \<and> lower_char c \<in> set ''nusmbk''"
proof -
  from assms have "lower u = ''ns'' \<or> lower u = ''us'' \<or> lower u = ''ms'' \<or> lower u = ''s''"
    by (auto simp: DURATION_UNITS_def split: if_splits)
  then have "match_alternatives [''ns'', ''us'', ''ms'', ''s''] (u @ rest) = Some u
      \<and> (\<exists>c cs. u = c # cs \<and> lower_char c \<in> set ''nusmbk'')"
    by (elim disjE) (auto simp: lower_eq_Cons)
  then show "match_alternatives [''ns'', ''us'', ''ms'', ''s''] (u @ rest) = Some u"
    and "\<exists>c cs. u = c # cs \<and> lower_char c \<in> set ''nusmbk''"
    by blast+
qed

lemma byte_unit_match:
  assumes "map_of BYTE_UNITS (lower u) = Some f"
  shows "match_alternatives [''B'', ''KB'', ''MB''] (u @ rest) = Some u"
    and "\<exists>c cs. u = c # cs \<and> lower_char c \<in> set ''nusmbk''"
proof -
  from assms have "lower u = ''b'' \<or> lower u = ''kb'' \<or> lower u = ''mb''"
    by (auto simp: BYTE_UNITS_def split: if_splits)
  then have "match_alternatives [''B'', ''KB'', ''MB''] (u @ rest) = Some u
      \<and> (\<exists>c cs. u = c # cs \<and> lower_char c \<in> set ''nusmbk'')"
    by (elim disjE) (auto simp: lower_eq_Cons)
  then show "match_alternatives [''B'', ''KB'', ''MB''] (u @ rest) = Some u"
    and "\<exists>c cs. u = c # cs \<and> lower_char c \<in> set ''nusmbk''"
    by blast+
qed


lemma takeWhile_digits_append:
  "list_all is_digit ds \<Longrightarrow> tail = [] \<or> \<not> is_digit (hd tail) \<Longrightarrow>
   takeWhile is_digit (ds @ tail) = ds \<and> dropWhile is_digit (ds @ tail) = tail"
  by (cases tail) (auto simp: takeWhile_append dropWhile_append list_all_iff takeWhile_eq_all_conv)

lemma dot_not_digit [simp]: "\<not> is_digit (CHR ''.'')"
  by (simp add: is_digit_def less_eq_char_def)

lemma sign_not_digit [simp]: "\<not> is_digit (CHR ''+'')" "\<not> is_digit (CHR ''-'')"
  by (simp_all add: is_digit_def less_eq_char_def)

lemma isspace_not_digit: "isspace c \<Longrightarrow> \<not> is_digit c \<and> c \<noteq> CHR ''.''"
  by (auto simp: isspace_def is_digit_def less_eq_char_def)

lemma match_number_eq:
  assumes "sg0 = (if s \<noteq> [] \<and> (hd s = CHR ''-'' \<or> hd s = CHR ''+'') then [hd s] else [])"
    and "r0 = drop (length sg0) s"
    and "d1 = takeWhile is_digit r0"
    and "r1 = dropWhile is_digit r0"
    and "r2 = drop 1 r1"
  shows "match_number s =
     (if r1 \<noteq> [] \<and> hd r1 = CHR ''.'' \<and> r2 \<noteq> [] \<and> is_digit (hd r2)
      then Some (sg0 @ d1 @ ''.'' @ takeWhile is_digit r2, dropWhile is_digit r2)
      else if d1 \<noteq> [] then Some (sg0 @ d1, r1)
      else None)"
  unfolding assms match_number_def Let_def ..

lemma match_number_shape:
  assumes sg: "sg = [] \<or> sg = ''+'' \<or> sg = ''-''"
    and ip: "list_all is_digit ip"
    and dt: "dt = [] \<or> dt = ''.''"
    and fd: "fd \<noteq> []" "list_all is_digit fd"
    and tail: "tail \<noteq> []" "\<not> is_digit (hd tail)" "hd tail \<noteq> CHR ''.''"
  shows "match_number (sg @ ip @ dt @ fd @ tail) = Some (sg @ ip @ dt @ fd, tail)"
proof -
  define body where "body = ip @ dt @ fd @ tail"
  have body_ne: "body \<noteq> []"
    using fd by (simp add: body_def)
  have "is_digit (hd body) \<or> hd body = CHR ''.''"
    using ip dt fd by (cases ip; cases fd) (auto simp: body_def)
  then have hd_body: "hd body \<noteq> CHR ''-''" "hd body \<noteq> CHR ''+''"
    by auto
  have sign: "sg = (if sg @ body \<noteq> [] \<and> (hd (sg @ body) = CHR ''-'' \<or> hd (sg @ body) = CHR ''+'')
               then [hd (sg @ body)] else [])"
    using sg body_ne hd_body by auto
  have rest: "body = drop (length sg) (sg @ body)"
    by simp
  show ?thesis
  proof (cases "dt = []")
    case True
    have "takeWhile is_digit ((ip @ fd) @ tail) = ip @ fd \<and> dropWhile is_digit ((ip @ fd) @ tail) = tail"
      using ip fd tail by (intro takeWhile_digits_append) simp_all
    then have d1: "ip @ fd = takeWhile is_digit body" and r1: "tail = dropWhile is_digit body"
      by (simp_all add: body_def True)
    have "match_number (sg @ body) = Some (sg @ ip @ fd, tail)"
      using match_number_eq [OF sign rest d1 r1 refl] tail fd by simp
    then show ?thesis
      by (simp add: body_def True)
  next
    case False
    with dt have dot: "dt = ''.''" by simp
    have "takeWhile is_digit (ip @ (CHR ''.'' # fd @ tail)) = ip
        \<and> dropWhile is_digit (ip @ (CHR ''.'' # fd @ tail)) = CHR ''.'' # fd @ tail"
      using ip by (intro takeWhile_digits_append) simp_all
    then have d1: "ip = takeWhile is_digit body" and r1: "CHR ''.'' # fd @ tail = dropWhile is_digit body"
      by (simp_all add: body_def dot)
    have 2: "takeWhile is_digit (fd @ tail) = fd \<and> dropWhile is_digit (fd @ tail) = tail"
      using fd tail by (intro takeWhile_digits_append) simp_all
    have 3: "is_digit (hd (fd @ tail))"
      using fd by (cases fd) auto
    have "match_number (sg @ body) = Some (sg @ ip @ ''.'' @ fd, tail)"
      using match_number_eq [OF sign rest d1 r1 refl] 2 3 fd by simp
    then show ?thesis
      by (simp add: body_def dot)
  qed
qed


lemma match_amount_unit_shape:
  assumes sg: "sg = [] \<or> sg = ''+'' \<or> sg = ''-''"
    and ip: "list_all is_digit ip"
    and dt: "dt = [] \<or> dt = ''.''"
    and fd: "fd \<noteq> []" "list_all is_digit fd"
    and ws: "list_all isspace ws"
    and alt: "match_alternatives alts (u @ rest) = Some u"
    and u: "\<exists>c cs. u = c # cs \<and> lower_char c \<in> set ''nusmbk''"
  shows "match_amount_unit alts (sg @ ip @ dt @ fd @ ws @ u @ rest) = Some (sg @ ip @ dt @ fd, u)"
proof -
  from u obtain c cs where c: "u = c # cs" "lower_char c \<in> set ''nusmbk''"
    by blast
  then have plain: "\<not> isspace c" "\<not> is_digit c" "c \<noteq> CHR ''.''"
    using unit_letter_plain [of c "lower_char c"] by simp_all
  define tail where "tail = ws @ u @ rest"
  have tail_ne: "tail \<noteq> []"
    by (simp add: tail_def c)
  have hd_tail: "\<not> is_digit (hd tail)" "hd tail \<noteq> CHR ''.''"
    using ws plain isspace_not_digit by (cases ws; auto simp: tail_def c)+
  have "match_number (sg @ ip @ dt @ fd @ tail) = Some (sg @ ip @ dt @ fd, tail)"
    using sg ip dt fd tail_ne hd_tail by (rule match_number_shape)
  moreover have "dropWhile isspace tail = u @ rest"
    using ws plain by (simp add: tail_def c dropWhile_append list_all_iff)
  ultimately show ?thesis
    using alt by (simp add: match_amount_unit_def tail_def)
qed

lemma replace_char_Nil [simp]: "replace_char c t [] = []"
  by (simp add: replace_char_def)

lemma parse_shape:
  assumes sg: "sg = [] \<or> sg = ''+'' \<or> sg = ''-''"
    and ip: "list_all is_digit ip"
    and dt: "dt = [] \<or> dt = ''.''"
    and fd: "fd \<noteq> []" "list_all is_digit fd"
    and ws: "list_all isspace ws"
  shows "map_of DURATION_UNITS (lower u) = Some f \<Longrightarrow>
         replace_char (CHR 0xB5) ''u'' (replace_char (CHR '','') [] (strip text))
           = sg @ ip @ dt @ fd @ ws @ u @ rest \<Longrightarrow>
         parse_duration (Some text) = Inr (Some (fmul (float_of_amount (sg @ ip @ dt @ fd)) f))"
    and "map_of BYTE_UNITS (lower u) = Some f \<Longrightarrow>
         replace_char (CHR '','') [] (strip text) = sg @ ip @ dt @ fd @ ws @ u @ rest \<Longrightarrow>
         parse_bytes (Some text) = Inr (Some (fmul (float_of_amount (sg @ ip @ dt @ fd)) f))"
proof -
  assume f: "map_of DURATION_UNITS (lower u) = Some f"
    and cleaned: "replace_char (CHR 0xB5) ''u'' (replace_char (CHR '','') [] (strip text))
           = sg @ ip @ dt @ fd @ ws @ u @ rest"
  have ne: "strip text \<noteq> []"
    using cleaned fd by auto
  have "match_amount_unit [''ns'', ''us'', ''ms'', ''s''] (sg @ ip @ dt @ fd @ ws @ u @ rest)
      = Some (sg @ ip @ dt @ fd, u)"
    using sg ip dt fd ws duration_unit_match [OF f] by (rule match_amount_unit_shape)
  then show "parse_duration (Some text) = Inr (Some (fmul (float_of_amount (sg @ ip @ dt @ fd)) f))"
    using ne f by (simp add: parse_duration_def Let_def cleaned)
next
  assume f: "map_of BYTE_UNITS (lower u) = Some f"
    and cleaned: "replace_char (CHR '','') [] (strip text) = sg @ ip @ dt @ fd @ ws @ u @ rest"
  have ne: "strip text \<noteq> []"
    using cleaned fd by auto
  have "match_amount_unit [''B'', ''KB'', ''MB''] (sg @ ip @ dt @ fd @ ws @ u @ rest)
      = Some (sg @ ip @ dt @ fd, u)"
    using sg ip dt fd ws byte_unit_match [OF f] by (rule match_amount_unit_shape)
  then show "parse_bytes (Some text) = Inr (Some (fmul (float_of_amount (sg @ ip @ dt @ fd)) f))"
    using ne f by (simp add: parse_bytes_def Let_def cleaned)
qed

text \<open>
  Claim C9. Let the text, after \<open>strip\<close>, the removal of commas and (for a duration)
  the replacement of the micro sign, start with a number, whitespace and a unit: the
  number is an optional sign \<open>sg\<close>, digits \<open>ip\<close>, an optional point \<open>dt\<close> and at least one
  digit \<open>fd\<close>; \<open>ws\<close> is whitespace, possibly none; and \<open>u\<close> is a unit of the table of the
  parser in any case of letters. Then the parser returns the float of the number times
  the factor of the unit, whatever the rest of the text is.
\<close>

theorem parse_ignores_trailing_text:
  assumes "sg = [] \<or> sg = ''+'' \<or> sg = ''-''"
    and "list_all is_digit ip"
    and "dt = [] \<or> dt = ''.''"
    and "fd \<noteq> []" and "list_all is_digit fd"
    and "list_all isspace ws"
  shows "(\<forall>f. map_of DURATION_UNITS (lower u) = Some f \<longrightarrow>
            replace_char (CHR 0xB5) ''u'' (replace_char (CHR '','') [] (strip text))
              = sg @ ip @ dt @ fd @ ws @ u @ rest \<longrightarrow>
            parse_duration (Some text)
              = Inr (Some (fmul (float_of_amount (sg @ ip @ dt @ fd)) f)))
       \<and> (\<forall>f. map_of BYTE_UNITS (lower u) = Some f \<longrightarrow>
            replace_char (CHR '','') [] (strip text) = sg @ ip @ dt @ fd @ ws @ u @ rest \<longrightarrow>
            parse_bytes (Some text)
              = Inr (Some (fmul (float_of_amount (sg @ ip @ dt @ fd)) f)))"
  using parse_shape [OF assms] by blast

theorem parse_ignores_trailing_text_witness:
  "parse_duration (Some ''10 seconds'') = Inr (Some (Finite False 10))
   \<and> parse_bytes (Some ''64 Bytes'') = Inr (Some (Finite False 64))"
proof -
  have d: "list_all is_digit []" "list_all is_digit ''10''" "list_all is_digit ''64''"
    "list_all isspace '' ''"
    by code_simp+
  have s: "map_of DURATION_UNITS (lower ''s'') = Some (Finite False 1)"
    by code_simp
  have b: "map_of BYTE_UNITS (lower ''B'') = Some (Finite False 1)"
    by code_simp
  have cd: "replace_char (CHR 0xB5) ''u'' (replace_char (CHR '','') [] (strip ''10 seconds''))
      = [] @ [] @ [] @ ''10'' @ '' '' @ ''s'' @ ''econds''"
    by code_simp
  have cb: "replace_char (CHR '','') [] (strip ''64 Bytes'')
      = [] @ [] @ [] @ ''64'' @ '' '' @ ''B'' @ ''ytes''"
    by code_simp
  have v10: "fmul (float_of_amount ([] @ [] @ [] @ ''10'')) (Finite False 1) = Finite False 10"
    by code_simp
  have v64: "fmul (float_of_amount ([] @ [] @ [] @ ''64'')) (Finite False 1) = Finite False 64"
    by code_simp
  have "parse_duration (Some ''10 seconds'') = Inr (Some (Finite False 10))"
    using parse_ignores_trailing_text [of "[]" "[]" "[]" "''10''" "'' ''" "''s''" "''10 seconds''" "''econds''"]
      d s cd v10 by simp
  moreover have "parse_bytes (Some ''64 Bytes'') = Inr (Some (Finite False 64))"
    using parse_ignores_trailing_text [of "[]" "[]" "[]" "''64''" "'' ''" "''B''" "''64 Bytes''" "''ytes''"]
      d b cb v64 by simp
  ultimately show ?thesis ..
qed

section \<open>Loading a report\<close>

lemma match_alternatives_lower:
  "match_alternatives alts s = Some g \<Longrightarrow> lower g \<in> set (map lower alts)"
  by (induction alts) (auto split: if_splits)

lemma duration_lookup:
  "match_alternatives [''ns'', ''us'', ''ms'', ''s''] s = Some g \<Longrightarrow>
   \<exists>f. map_of DURATION_UNITS (lower g) = Some f"
  using match_alternatives_lower [of "[''ns'', ''us'', ''ms'', ''s'']" s g]
  by (auto simp: DURATION_UNITS_def)

lemma parse_duration_returns: "\<exists>r. parse_duration (Some text) = Inr r"
proof (cases "match_amount_unit [''ns'', ''us'', ''ms'', ''s'']
    (replace_char (CHR 0xB5) ''u'' (replace_char (CHR '','') [] (strip text)))")
  case None
  then show ?thesis
    by (simp add: parse_duration_def Let_def)
next
  case (Some au)
  obtain amount u where au: "au = (amount, u)"
    by (cases au)
  from Some obtain s where "match_alternatives [''ns'', ''us'', ''ms'', ''s''] s = Some u"
    by (auto simp: au match_amount_unit_def split: option.splits prod.splits)
  then obtain f where "map_of DURATION_UNITS (lower u) = Some f"
    using duration_lookup by blast
  with Some show ?thesis
    by (simp add: parse_duration_def Let_def au)
qed

lemma byte_lookup:
  "match_alternatives [''B'', ''KB'', ''MB''] s = Some g \<Longrightarrow>
   \<exists>f. map_of BYTE_UNITS (lower g) = Some f"
  using match_alternatives_lower [of "[''B'', ''KB'', ''MB'']" s g]
  by (auto simp: BYTE_UNITS_def)

lemma parse_bytes_returns: "\<exists>r. parse_bytes (Some text) = Inr r"
proof (cases "match_amount_unit [''B'', ''KB'', ''MB''] (replace_char (CHR '','') [] (strip text))")
  case None
  then show ?thesis
    by (simp add: parse_bytes_def Let_def)
next
  case (Some au)
  obtain amount u where au: "au = (amount, u)"
    by (cases au)
  from Some obtain s where "match_alternatives [''B'', ''KB'', ''MB''] s = Some u"
    by (auto simp: au match_amount_unit_def split: option.splits prod.splits)
  then obtain f where "map_of BYTE_UNITS (lower u) = Some f"
    using byte_lookup by blast
  with Some show ?thesis
    by (simp add: parse_bytes_def Let_def au)
qed


lemma row_get_full:
  assumes "length fieldnames \<le> length row"
  shows "\<exists>cell. row_get (zip fieldnames (map Some row)
                  @ map (\<lambda>key. (key, None)) (drop (length row) fieldnames)) key = Some cell"
proof -
  have "map_of (rev (zip fieldnames (map Some row))) key = Some cell \<Longrightarrow> cell \<noteq> None" for cell
    by (auto dest!: map_of_SomeD set_zip_rightD)
  then show ?thesis
    using assms by (auto simp: row_get_def split: option.splits)
qed

lemma read_rows_returns:
  "list_all (\<lambda>row. \<forall>key. \<exists>cell. row_get row key = Some cell) rows \<Longrightarrow>
   \<exists>out. read_rows res rows = Inr out"
proof (induction rows arbitrary: res)
  case Nil
  then show ?case by simp
next
  case (Cons row rows)
  then have "\<And>key. \<exists>cell. row_get row key = Some cell"
    by simp
  then obtain m x y z where cells: "row_get row ''Method'' = Some m" "row_get row ''Mean'' = Some x"
      "row_get row ''StdDev'' = Some y" "row_get row ''Allocated'' = Some z"
    by metis
  obtain mean where mean: "parse_duration (Some x) = Inr mean"
    using parse_duration_returns by blast
  obtain stddev where stddev: "parse_duration (Some y) = Inr stddev"
    using parse_duration_returns by blast
  obtain alloc where alloc: "parse_bytes (Some z) = Inr alloc"
    using parse_bytes_returns by blast
  from Cons show ?case
    by (simp add: cells mean stddev alloc method_name_def)
qed

text \<open>
  What holds of the claim: a report in which no record is shorter than the header is
  loaded without an exception, whatever its cells and names are, as long as its text
  stays within the characters of the model, U+0000 to U+00FF. Beyond them the
  case-insensitive pattern takes the letter U+017F for the unit \<open>s\<close>, which the table
  of units, looked up in lower case, does not hold.
\<close>

lemma read_results_full_rows:
  assumes "list_all (\<lambda>row. row = [] \<or> length (hd records) \<le> length row) (tl records)"
  shows "\<exists>out. read_results records = Inr out"
proof (cases records)
  case Nil
  then show ?thesis
    by (simp add: read_results_def dict_rows_def)
next
  case (Cons fieldnames rest)
  with assms have "list_all (\<lambda>row. \<forall>key. \<exists>cell. row_get row key = Some cell) (dict_rows records)"
    by (auto simp: dict_rows_def list_all_iff intro: row_get_full)
  then show ?thesis
    unfolding read_results_def by (rule read_rows_returns)
qed

text \<open>
  Claim C6 fails on the code. A record with fewer cells than the header has the value
  \<open>None\<close> under each missing column, so \<open>row.get("StdDev", "")\<close> returns \<open>None\<close>, not the
  default, and \<open>parse_duration\<close> raises \<open>AttributeError\<close> on \<open>value.strip()\<close>: the row is
  not loaded with null fields, and the load ends with the exception.
\<close>

theorem read_results_short_row:
  "read_results [[''Method'', ''Mean'', ''StdDev'', ''Allocated''], [''Foo'', ''1 ns'']]
     = Inl AttributeError"
  by code_simp

section \<open>The command line of the comparison tool\<close>






section \<open>Restoring the working copy\<close>

lemma quiet_Nil [simp]: "quiet []"
  by (simp add: quiet_def)

lemma quiet_append [simp]: "quiet (a @ b) \<longleftrightarrow> quiet a \<and> quiet b"
  by (auto simp: quiet_def)

lemma quiet_Cons_other [simp]:
  "quiet (Printed t # evs) = quiet evs" "quiet (Copied s d # evs) = quiet evs"
  "quiet (Removed p # evs) = quiet evs"
  by (auto simp: quiet_def)


lemma run_trace: "snd (run E cmd capture tr) = tr @ [Ran cmd (returncode E tr cmd)]"
  by (simp add: run_def Let_def)

lemma run_result:
  "(\<exists>out. fst (run E cmd capture tr) = Inr out) \<longleftrightarrow> returncode E tr cmd = 0"
  by (simp add: run_def Let_def)

lemma run_failed_uncaptured:
  "returncode E tr cmd \<noteq> 0 \<Longrightarrow> fst (run E cmd False tr) = Inl AttributeError"
  by (simp add: run_def Let_def)











lemma quiet_no_undo: "quiet evs \<Longrightarrow> Ran JJ_UNDO rc \<notin> set evs"
  by (simp add: quiet_def)







section \<open>Rounding to a float\<close>

lemma round_half_even_error: "\<bar>of_int (round_half_even x) - x\<bar> \<le> 1 / 2"
proof -
  have "of_int \<lfloor>x\<rfloor> \<le> x" "x < of_int \<lfloor>x\<rfloor> + 1"
    by linarith+
  then show ?thesis
    by (auto simp: round_half_even_def Let_def)
qed

lemma round_half_even_nonneg: "0 \<le> x \<Longrightarrow> 0 \<le> round_half_even x"
  by (auto simp: round_half_even_def Let_def)

lemma power_int_nat_diff: "(2::rat) powi (int m - int n) = 2 ^ m / 2 ^ n"
  by (simp add: power_int_diff)

lemma floor_log2_zero: "floor_log2 0 = - 2"
  by code_simp

lemma floor_log2_le:
  assumes "0 < a"
  shows "2 powi (floor_log2 a) \<le> a"
proof -
  obtain p q where pq: "quotient_of a = (p, q)"
    by (cases "quotient_of a")
  then have q: "0 < q" and a: "a = of_int p / of_int q"
    using quotient_of_denom_pos quotient_of_div by blast+
  with assms have p: "0 < p"
    by (simp add: zero_less_divide_iff)
  define d where "d = bitlen p - bitlen q"
  have bp: "2 ^ nat (bitlen p - 1) \<le> p" and bq: "q < 2 ^ nat (bitlen q)"
    using bitlen_bounds [OF p] bitlen_bounds [OF q] by simp_all
  have lp: "1 \<le> bitlen p" and lq: "1 \<le> bitlen q"
    using p q by (simp_all add: bitlen_alt_def)
  have "(2::rat) powi (d - 1) = 2 ^ nat (bitlen p - 1) / 2 ^ nat (bitlen q)"
  proof -
    have "d - 1 = int (nat (bitlen p - 1)) - int (nat (bitlen q))"
      using lp lq by (simp add: d_def)
    then have "(2::rat) powi (d - 1) = 2 powi (int (nat (bitlen p - 1)) - int (nat (bitlen q)))"
      by simp
    also have "\<dots> = 2 ^ nat (bitlen p - 1) / 2 ^ nat (bitlen q)"
      by (rule power_int_nat_diff)
    finally show ?thesis .
  qed
  also have "\<dots> \<le> of_int p / of_int q"
  proof -
    have 1: "(2::rat) ^ nat (bitlen p - 1) \<le> of_int p"
      using bp by (metis of_int_le_iff of_int_numeral of_int_power)
    have 2: "(of_int q :: rat) \<le> 2 ^ nat (bitlen q)"
      using bq by (metis less_imp_le of_int_le_iff of_int_numeral of_int_power)
    have 3: "(0::rat) < of_int q"
      using q by simp
    have 4: "(0::rat) \<le> of_int p"
      using p by simp
    show ?thesis
      by (rule frac_le [OF 4 1 3 2])
  qed
  finally have low: "2 powi (d - 1) \<le> a"
    by (simp add: a)
  show ?thesis
    using low by (simp add: floor_log2_def pq d_def Let_def)
qed

lemma round_double_error:
  assumes "0 \<le> a" "a < 2 ^ 1000"
  shows "\<exists>r. round_double s a = Finite s r \<and> 0 \<le> r \<and> \<bar>r - a\<bar> \<le> a / 2 ^ 53 + 1 / 2 ^ 1075"
proof (cases "a = 0")
  case True
  then show ?thesis
    by (simp add: round_double_def)
next
  case False
  with assms have pos: "0 < a" by simp
  define e where "e = max (floor_log2 a) (- 1022)"
  define u :: rat where "u = 2 powi (e - 52)"
  define r where "r = of_int (round_half_even (a / u)) * u"
  have u_pos: "0 < u"
    by (simp add: u_def)
  have u_split: "u = 2 powi e / 2 ^ 52"
    by (simp add: u_def power_int_diff)
  have "2 powi e \<le> a + 1 / 2 ^ 1022"
  proof (cases "floor_log2 a \<le> - 1022")
    case True
    then have "e = - 1022" by (simp add: e_def)
    then have "(2::rat) powi e = 1 / 2 ^ 1022"
      by (simp add: power_int_minus_divide)
    with pos show ?thesis by simp
  next
    case False
    then have "e = floor_log2 a" by (simp add: e_def)
    with floor_log2_le [OF pos] show ?thesis by simp
  qed
  then have u_le: "u \<le> a / 2 ^ 52 + 1 / 2 ^ 1074"
    unfolding u_split by (simp add: field_simps)
  have "\<bar>of_int (round_half_even (a / u)) - a / u\<bar> \<le> 1 / 2"
    by (rule round_half_even_error)
  then have "\<bar>of_int (round_half_even (a / u)) - a / u\<bar> * u \<le> 1 / 2 * u"
    using u_pos by (intro mult_right_mono) simp_all
  moreover have "r - a = (of_int (round_half_even (a / u)) - a / u) * u"
    using u_pos by (simp add: r_def left_diff_distrib)
  then have "\<bar>r - a\<bar> = \<bar>of_int (round_half_even (a / u)) - a / u\<bar> * u"
    using u_pos by (simp add: abs_mult)
  ultimately have "\<bar>r - a\<bar> \<le> u / 2"
    by simp
  with u_le have err: "\<bar>r - a\<bar> \<le> a / 2 ^ 53 + 1 / 2 ^ 1075"
    by simp
  have r_nonneg: "0 \<le> r"
    using pos u_pos round_half_even_nonneg [of "a / u"] by (simp add: r_def)
  have "\<not> 1024 \<le> floor_log2 r"
  proof
    assume big: "1024 \<le> floor_log2 r"
    have "r \<noteq> 0"
    proof
      assume "r = 0"
      then have "floor_log2 r = - 2"
        by (simp add: floor_log2_zero)
      with big show False by simp
    qed
    with r_nonneg have "0 < r" by simp
    then have "2 powi (floor_log2 r) \<le> r"
      by (rule floor_log2_le)
    moreover have "(2::rat) powi 1024 \<le> 2 powi (floor_log2 r)"
      using big by (intro power_int_increasing) simp_all
    ultimately have "2 ^ 1024 \<le> r"
      by simp
    moreover have "r \<le> a + (a / 2 ^ 53 + 1 / 2 ^ 1075)"
      using err by linarith
    ultimately show False
      using assms(2) by simp
  qed
  then have "round_double s a = Finite s r"
    using False by (simp add: round_double_def Let_def e_def u_def r_def)
  with r_nonneg err show ?thesis
    by blast
qed

section \<open>Digits written and read back\<close>

lemma digit_char_is_digit: "d < 10 \<Longrightarrow> is_digit (digit_char d)"
  by (simp add: digit_char_def is_digit_def less_eq_char_def)

lemma of_char_digit_char: "d < 10 \<Longrightarrow> (of_char (digit_char d) :: nat) = 48 + d"
  by (simp add: digit_char_def)

lemma digits_digits: "list_all is_digit (digits n)"
proof (induction n rule: digits.induct)
  case (1 n)
  show ?case
  proof (cases "n < 10")
    case True
    then show ?thesis
      by (subst digits.simps) (simp add: digit_char_is_digit)
  next
    case False
    with 1 show ?thesis
      by (subst digits.simps) (simp add: digit_char_is_digit)
  qed
qed

lemma digits_not_Nil: "digits n \<noteq> []"
  by (subst digits.simps) simp

lemma nat_of_digits_snoc:
  "nat_of_digits (ds @ [c]) = 10 * nat_of_digits ds + (of_char c - 48)"
  by (simp add: nat_of_digits_def)

lemma nat_of_digits_Nil [simp]: "nat_of_digits [] = 0"
  by (simp add: nat_of_digits_def)

lemma nat_of_digits_digits: "nat_of_digits (digits n) = n"
proof (induction n rule: digits.induct)
  case (1 n)
  show ?case
  proof (cases "n < 10")
    case True
    then show ?thesis
      by (subst digits.simps) (simp add: nat_of_digits_def of_char_digit_char)
  next
    case False
    with 1 have "nat_of_digits (digits (n div 10)) = n div 10"
      by simp
    then show ?thesis
      using False by (subst digits.simps) (simp add: nat_of_digits_snoc of_char_digit_char)
  qed
qed

lemma nat_of_digits_append:
  "nat_of_digits (xs @ ys) = nat_of_digits xs * 10 ^ length ys + nat_of_digits ys"
proof (induction ys rule: rev_induct)
  case Nil
  then show ?case by simp
next
  case (snoc y ys)
  then show ?case
    using nat_of_digits_snoc [of "xs @ ys" y] by (simp add: nat_of_digits_snoc algebra_simps)
qed

lemma nat_of_digits_zeros: "nat_of_digits (replicate k (CHR ''0'') @ ds) = nat_of_digits ds"
proof -
  have "nat_of_digits (replicate k (CHR ''0'')) = 0"
    by (induction k) (simp_all add: nat_of_digits_def)
  then show ?thesis
    by (simp add: nat_of_digits_append)
qed

lemma length_digits: "n < 10 ^ k \<Longrightarrow> 0 < k \<Longrightarrow> length (digits n) \<le> k"
proof (induction n arbitrary: k rule: digits.induct)
  case (1 n)
  show ?case
  proof (cases "n < 10")
    case True
    then show ?thesis
      using 1(3) by (subst digits.simps) simp
  next
    case False
    with 1(2) have "1 < k"
      by (cases "k = 1") (use 1(3) in auto)
    then obtain j where k: "k = Suc j" "0 < j"
      by (cases k) auto
    with 1(2) have "n div 10 < 10 ^ j"
      by (simp add: less_mult_imp_div_less mult.commute)
    with 1(1) [of j] False k have "length (digits (n div 10)) \<le> j"
      by simp
    then show ?thesis
      using False k by (subst digits.simps) simp
  qed
qed

text \<open>The text of a number printed with three decimals.\<close>

lemma fixed_digits_3:
  assumes "0 \<le> v"
  defines "n \<equiv> nat (round_half_even (v * 1000))"
  shows "\<exists>ip fd. fixed_digits 3 v = ip @ ''.'' @ fd \<and> list_all is_digit ip \<and> ip \<noteq> []
           \<and> list_all is_digit fd \<and> length fd = 3 \<and> nat_of_digits (ip @ fd) = n"
proof -
  define ip where "ip = digits (n div 1000)"
  define fp where "fp = digits (n mod 1000)"
  define fd where "fd = replicate (3 - length fp) (CHR ''0'') @ fp"
  have len: "length fp \<le> 3"
    unfolding fp_def by (rule length_digits) simp_all
  have "fixed_digits 3 v = ip @ ''.'' @ fd"
    by (simp add: fixed_digits_def Let_def n_def ip_def fp_def fd_def)
  moreover have "list_all is_digit ip"
    unfolding ip_def by (rule digits_digits)
  moreover have "ip \<noteq> []"
    unfolding ip_def by (rule digits_not_Nil)
  moreover have zero: "is_digit (CHR ''0'')"
    by (simp add: is_digit_def)
  then have "list_all is_digit fd"
    using digits_digits [of "n mod 1000"] by (auto simp: fd_def fp_def list_all_iff)
  moreover have lfd: "length fd = 3"
    using len by (simp add: fd_def)
  moreover have "nat_of_digits (ip @ fd) = n"
  proof -
    have "nat_of_digits fd = n mod 1000"
      by (simp add: fd_def nat_of_digits_zeros fp_def nat_of_digits_digits)
    then show ?thesis
      by (simp add: nat_of_digits_append lfd ip_def nat_of_digits_digits)
  qed
  ultimately show ?thesis by blast
qed

section \<open>Parsing a formatted duration\<close>

lemma replace_char_absent: "c \<notin> set s \<Longrightarrow> replace_char c t s = s"
  by (induction s) (auto simp: replace_char_def)

lemma strip_plain:
  assumes "s \<noteq> []" "\<not> isspace (hd s)" "\<not> isspace (last s)"
  shows "strip s = s"
proof -
  have "lstrip s = s"
    using assms by (cases s) (simp_all add: lstrip_def)
  moreover have "rstrip s = s"
    using assms by (cases s rule: rev_cases) simp_all
  ultimately show ?thesis
    by (simp add: strip_def)
qed

lemma is_digit_plain: "is_digit c \<Longrightarrow> \<not> isspace c \<and> c \<noteq> CHR '','' \<and> c \<noteq> CHR 0xB5 \<and> c \<noteq> CHR ''-''"
  by (auto simp: is_digit_def isspace_def less_eq_char_def)

lemma float_of_amount_decimal:
  assumes sg: "sg = [] \<or> sg = ''-''"
    and ip: "list_all is_digit ip" and fd: "list_all is_digit fd"
  shows "float_of_amount (sg @ ip @ ''.'' @ fd)
     = round_double (sg = ''-'') (of_nat (nat_of_digits (ip @ fd)) / 10 ^ length fd)"
proof -
  define body where "body = ip @ ''.'' @ fd"
  have hd_body: "hd body \<noteq> CHR ''-''" "hd body \<noteq> CHR ''+''"
    using ip by (cases ip; auto simp: body_def is_digit_def less_eq_char_def)+
  have body_ne: "body \<noteq> []"
    by (simp add: body_def)
  have tw: "takeWhile is_digit body = ip" "dropWhile is_digit body = ''.'' @ fd"
    using takeWhile_digits_append [OF ip, of "''.'' @ fd"] by (simp_all add: body_def)
  have "float_of_amount (sg @ body)
      = round_double (sg = ''-'') (of_nat (nat_of_digits (ip @ fd)) / 10 ^ length fd)"
    using sg hd_body body_ne tw by (auto simp: float_of_amount_def Let_def)
  then show ?thesis
    by (simp add: body_def)
qed

lemma parse_duration_formatted:
  assumes sg: "sg = [] \<or> sg = ''-''"
    and ip: "list_all is_digit ip" "ip \<noteq> []"
    and fd: "list_all is_digit fd" "fd \<noteq> []"
    and u: "u \<in> set [''ns'', ''us'', ''ms'', ''s'']"
    and f: "map_of DURATION_UNITS u = Some f"
  shows "parse_duration (Some (sg @ ip @ ''.'' @ fd @ '' '' @ u))
     = Inr (Some (fmul (round_double (sg = ''-'')
                          (of_nat (nat_of_digits (ip @ fd)) / 10 ^ length fd)) f))"
proof -
  define T where "T = sg @ ip @ ''.'' @ fd @ '' '' @ u"
  have lower_u: "lower u = u"
    using u by auto
  have u_chars: "set u \<subseteq> set ''nusm''" "u \<noteq> []" "last u = CHR ''s''"
    using u by auto
  have digs: "\<forall>c \<in> set ip \<union> set fd. is_digit c"
    using ip fd by (auto simp: list_all_iff)
  have no_comma: "CHR '','' \<notin> set T"
    using sg digs u_chars(1) is_digit_plain by (auto simp: T_def)
  have no_micro: "CHR 0xB5 \<notin> set T"
    using sg digs u_chars(1) is_digit_plain by (auto simp: T_def)
  have "hd T = hd (sg @ ip)"
    using ip(2) by (cases sg; cases ip) (simp_all add: T_def)
  then have hd_T: "\<not> isspace (hd T)"
    using sg ip is_digit_plain by (cases ip) (auto simp: isspace_def)
  have "last T = CHR ''s''"
    using u_chars by (simp add: T_def)
  then have last_T: "\<not> isspace (last T)"
    by (simp add: isspace_def)
  have "T \<noteq> []"
    using ip(2) by (simp add: T_def)
  then have "strip T = T"
    using hd_T last_T by (rule strip_plain)
  then have cleaned: "replace_char (CHR 0xB5) ''u'' (replace_char (CHR '','') [] (strip T))
      = sg @ ip @ ''.'' @ fd @ '' '' @ u @ []"
    using no_comma no_micro by (simp add: replace_char_absent T_def)
  have sg': "sg = [] \<or> sg = ''+'' \<or> sg = ''-''"
    using sg by auto
  have ws: "list_all isspace '' ''"
    by (simp add: isspace_def)
  have "parse_duration (Some T)
      = Inr (Some (fmul (float_of_amount (sg @ ip @ ''.'' @ fd)) f))"
    using parse_shape(1) [OF sg' ip(1) _ fd(2) fd(1) ws _ cleaned, of f] f lower_u by simp
  then show ?thesis
    using float_of_amount_decimal [OF sg ip(1) fd(1)] by (simp add: T_def)
qed

lemma float_1e9: "float_of_rat (1 / 10 ^ 9) = Finite False (4835703278458517 / 2 ^ 82)"
  by code_simp

lemma float_1e6: "float_of_rat (1 / 10 ^ 6) = Finite False (4722366482869645 / 2 ^ 72)"
  by code_simp

lemma float_1e3: "float_of_rat (1 / 10 ^ 3) = Finite False (1152921504606847 / 2 ^ 60)"
  by code_simp

lemma duration_units:
  "map_of DURATION_UNITS ''ns'' = Some (Finite False (4835703278458517 / 2 ^ 82))"
  "map_of DURATION_UNITS ''us'' = Some (Finite False (4722366482869645 / 2 ^ 72))"
  "map_of DURATION_UNITS ''ms'' = Some (Finite False (1152921504606847 / 2 ^ 60))"
  "map_of DURATION_UNITS ''s'' = Some (Finite False 1)"
  unfolding DURATION_UNITS_def float_1e9 float_1e6 float_1e3 by simp_all

lemma parse_formatted:
  assumes v: "0 \<le> v" "v < 2 ^ 100"
    and u: "u \<in> set [''ns'', ''us'', ''ms'', ''s'']"
    and f: "map_of DURATION_UNITS u = Some (Finite False c)"
    and c: "0 \<le> c" "c \<le> 1"
  shows "\<exists>D y1 y. parse_duration (Some (format_fixed False 3 (Finite s v) @ '' '' @ u))
            = Inr (Some (Finite s y))
          \<and> 0 \<le> D \<and> \<bar>D - v\<bar> \<le> 1 / 2000
          \<and> 0 \<le> y1 \<and> \<bar>y1 - D\<bar> \<le> D / 2 ^ 53 + 1 / 2 ^ 1075
          \<and> 0 \<le> y \<and> \<bar>y - y1 * c\<bar> \<le> y1 * c / 2 ^ 53 + 1 / 2 ^ 1075"
proof -
  define k where "k = round_half_even (v * 1000)"
  define D :: rat where "D = of_int k / 1000"
  define sg where "sg = sign_prefix False s"
  have k0: "0 \<le> k"
    unfolding k_def using v(1) by (intro round_half_even_nonneg) simp
  obtain ip fd where shape: "fixed_digits 3 v = ip @ ''.'' @ fd"
    and ip: "list_all is_digit ip" "ip \<noteq> []"
    and fd: "list_all is_digit fd" "length fd = 3"
    and n: "nat_of_digits (ip @ fd) = nat k"
    using fixed_digits_3 [OF v(1)] unfolding k_def by blast
  have sg: "sg = [] \<or> sg = ''-''" and neg: "(sg = ''-'') = s"
    by (auto simp: sg_def sign_prefix_def)
  have fd_ne: "fd \<noteq> []"
    using fd(2) by auto
  have shown: "format_fixed False 3 (Finite s v) @ '' '' @ u = sg @ ip @ ''.'' @ fd @ '' '' @ u"
    by (simp add: format_fixed_def sg_def shape)
  have amount: "(of_nat (nat_of_digits (ip @ fd)) :: rat) / 10 ^ length fd = D"
    using k0 by (simp add: n fd(2) D_def)
  have parsed: "parse_duration (Some (format_fixed False 3 (Finite s v) @ '' '' @ u))
      = Inr (Some (fmul (round_double s D) (Finite False c)))"
    unfolding shown using parse_duration_formatted [OF sg ip fd(1) fd_ne u f]
    by (simp only: amount neg)
  have D0: "0 \<le> D"
    using k0 by (simp add: D_def)
  have "\<bar>of_int k - v * 1000\<bar> \<le> 1 / 2"
    unfolding k_def by (rule round_half_even_error)
  then have Dv: "\<bar>D - v\<bar> \<le> 1 / 2000"
    by (simp add: D_def field_simps abs_if split: if_splits)
  have "(2::rat) ^ 100 + 1 < 2 ^ 1000"
    by simp
  then have D_small: "D < 2 ^ 1000"
    using Dv v(2) by linarith
  obtain y1 where y1: "round_double s D = Finite s y1" "0 \<le> y1"
      "\<bar>y1 - D\<bar> \<le> D / 2 ^ 53 + 1 / 2 ^ 1075"
    using round_double_error [OF D0 D_small] by blast
  have "D / 2 ^ 53 \<le> D" "(1::rat) / 2 ^ 1075 \<le> 1"
    using D0 by (simp_all add: field_simps)
  then have "y1 \<le> 2 * D + 1"
    using y1(3) by linarith
  moreover have "D < v + 1"
    using Dv by linarith
  ultimately have "y1 < 2 * v + 3"
    by linarith
  also have "\<dots> < 2 * 2 ^ 100 + 3"
    using v(2) by simp
  also have "\<dots> < 2 ^ 1000"
    by simp
  finally have "y1 < 2 ^ 1000" .
  moreover have "y1 * c \<le> y1 * 1"
    using c(2) y1(2) by (intro mult_left_mono)
  ultimately have yc: "0 \<le> y1 * c" "y1 * c < 2 ^ 1000"
    using c(1) y1(2) by simp_all
  obtain y where y: "round_double s (y1 * c) = Finite s y" "0 \<le> y"
      "\<bar>y - y1 * c\<bar> \<le> y1 * c / 2 ^ 53 + 1 / 2 ^ 1075"
    using round_double_error [OF yc] by blast
  have prod: "fmul (round_double s D) (Finite False c) = Finite s y"
    by (simp add: y1(1) y(1))
  have "parse_duration (Some (format_fixed False 3 (Finite s v) @ '' '' @ u)) = Inr (Some (Finite s y))"
    unfolding parsed prod by (rule refl)
  then show ?thesis
    using D0 Dv y1(2,3) y(2,3) by blast
qed

lemma chain_linear:
  fixes A v D y1 Pk Yk :: rat
  assumes "0 \<le> A" "A \<le> 1099511627776"
    and "\<bar>v - A\<bar> \<le> A / 9000000000000000 + 1 / 1000000000000"
    and "\<bar>D - v\<bar> \<le> 1 / 2000"
    and "\<bar>y1 - D\<bar> \<le> D / 9000000000000000 + 1 / 1000000000000"
    and "\<bar>Pk - y1\<bar> \<le> y1 / 9000000000000000"
    and "\<bar>Yk - Pk\<bar> \<le> Pk / 9000000000000000 + 1 / 1000000000000"
  shows "\<bar>Yk - A\<bar> \<le> 1 / 1000"
  using assms by linarith

lemma rounding_weaker:
  fixes q r :: rat
  assumes "0 \<le> r" "\<bar>q - r\<bar> \<le> r / 2 ^ 53 + 1 / 2 ^ 1075"
  shows "\<bar>q - r\<bar> \<le> r / 9000000000000000 + 1 / 1000000000000000000000"
proof -
  have "r / 2 ^ 53 \<le> r / 9000000000000000"
    using assms(1) by (intro divide_left_mono) simp_all
  moreover have "(1::rat) / 2 ^ 1075 \<le> 1 / 1000000000000000000000"
    by simp
  ultimately show ?thesis
    using assms(2) by linarith
qed

lemma round_trip_arith:
  fixes a k c v D y1 y :: rat
  assumes a: "0 \<le> a" "a * k \<le> 2 ^ 40"
    and k: "1 \<le> k" "k \<le> 10 ^ 9"
    and c: "0 \<le> c" "\<bar>c * k - 1\<bar> \<le> 1 / 2 ^ 53"
    and v: "\<bar>v - a * k\<bar> \<le> a * k / 2 ^ 53 + 1 / 2 ^ 1075"
    and D: "\<bar>D - v\<bar> \<le> 1 / 2000" "0 \<le> D"
    and y1: "0 \<le> y1" "\<bar>y1 - D\<bar> \<le> D / 2 ^ 53 + 1 / 2 ^ 1075"
    and y: "\<bar>y - y1 * c\<bar> \<le> y1 * c / 2 ^ 53 + 1 / 2 ^ 1075"
  shows "\<bar>y - a\<bar> \<le> 1 / (1000 * k)"
proof -
  define A where "A = a * k"
  define Pk where "Pk = y1 * c * k"
  define Yk where "Yk = y * k"
  have k0: "0 < k"
    using k(1) by simp
  have A: "0 \<le> A" "A \<le> 1099511627776"
    using a k0 by (simp_all add: A_def)
  have P0: "0 \<le> y1 * c"
    using y1(1) c(1) by simp
  have hv: "\<bar>v - A\<bar> \<le> A / 9000000000000000 + 1 / 1000000000000"
    using rounding_weaker [OF A(1), of v] v by (simp add: A_def)
  have hy1: "\<bar>y1 - D\<bar> \<le> D / 9000000000000000 + 1 / 1000000000000"
    using rounding_weaker [OF D(2) y1(2)] by simp
  have "Pk - y1 = y1 * (c * k - 1)"
    by (simp add: Pk_def algebra_simps)
  then have "\<bar>Pk - y1\<bar> = y1 * \<bar>c * k - 1\<bar>"
    using y1(1) by (simp only: abs_mult abs_of_nonneg)
  also have "\<dots> \<le> y1 * (1 / 2 ^ 53)"
    using c(2) y1(1) by (rule mult_left_mono)
  also have "\<dots> \<le> y1 / 9000000000000000"
    using y1(1) by simp
  finally have hc: "\<bar>Pk - y1\<bar> \<le> y1 / 9000000000000000" .
  have "Yk - Pk = (y - y1 * c) * k"
    by (simp add: Yk_def Pk_def algebra_simps)
  then have "\<bar>Yk - Pk\<bar> = \<bar>y - y1 * c\<bar> * k"
    using k0 by (simp only: abs_mult abs_of_pos)
  also have "\<dots> \<le> (y1 * c / 9000000000000000 + 1 / 1000000000000000000000) * k"
    using rounding_weaker [OF P0 y] k0 by (intro mult_right_mono) simp_all
  also have "\<dots> = Pk / 9000000000000000 + k / 1000000000000000000000"
    by (simp add: Pk_def algebra_simps)
  also have "\<dots> \<le> Pk / 9000000000000000 + 1 / 1000000000000"
    using k(2) by simp
  finally have hy: "\<bar>Yk - Pk\<bar> \<le> Pk / 9000000000000000 + 1 / 1000000000000" .
  have "\<bar>Yk - A\<bar> \<le> 1 / 1000"
    using A hv D(1) hy1 hc hy by (rule chain_linear)
  moreover have "Yk - A = (y - a) * k"
    by (simp add: Yk_def A_def algebra_simps)
  then have "\<bar>Yk - A\<bar> = \<bar>y - a\<bar> * k"
    using k0 by (simp only: abs_mult abs_of_pos)
  ultimately have "\<bar>y - a\<bar> * k \<le> 1 / 1000"
    by simp
  then show ?thesis
    using k0 by (simp add: field_simps)
qed

lemma scaled_round_trip:
  assumes a: "0 \<le> a" "a * k \<le> 2 ^ 40"
    and k: "1 \<le> k" "k \<le> 10 ^ 9"
    and u: "u \<in> set [''ns'', ''us'', ''ms'', ''s'']"
    and f: "map_of DURATION_UNITS u = Some (Finite False c)"
    and c: "0 \<le> c" "c \<le> 1" "\<bar>c * k - 1\<bar> \<le> 1 / 2 ^ 53"
  shows "\<exists>y. parse_duration
            (Some (format_fixed False 3 (fmul (Finite s a) (Finite False k)) @ '' '' @ u))
          = Inr (Some (Finite s y))
        \<and> \<bar>y - a\<bar> \<le> 1 / (1000 * k)"
proof -
  have ak: "0 \<le> a * k"
    using a(1) k(1) by simp
  have "(2::rat) ^ 40 < 2 ^ 1000"
    by simp
  then have small: "a * k < 2 ^ 1000"
    using a(2) by linarith
  obtain v where v: "round_double s (a * k) = Finite s v" "0 \<le> v"
      "\<bar>v - a * k\<bar> \<le> a * k / 2 ^ 53 + 1 / 2 ^ 1075"
    using round_double_error [OF ak small] by blast
  have "a * k / 2 ^ 53 \<le> a * k" "(1::rat) / 2 ^ 1075 \<le> 1"
    using ak by (simp_all add: field_simps)
  then have "v \<le> 2 * (a * k) + 1"
    using v(3) by linarith
  also have "\<dots> \<le> 2 * 2 ^ 40 + 1"
    using a(2) by simp
  also have "\<dots> < 2 ^ 100"
    by simp
  finally have v_small: "v < 2 ^ 100" .
  obtain D y1 y where
    parsed: "parse_duration (Some (format_fixed False 3 (Finite s v) @ '' '' @ u))
      = Inr (Some (Finite s y))"
    and D: "0 \<le> D" "\<bar>D - v\<bar> \<le> 1 / 2000"
    and y1: "0 \<le> y1" "\<bar>y1 - D\<bar> \<le> D / 2 ^ 53 + 1 / 2 ^ 1075"
    and y: "\<bar>y - y1 * c\<bar> \<le> y1 * c / 2 ^ 53 + 1 / 2 ^ 1075"
    using parse_formatted [OF v(2) v_small u f c(1,2), of s] by blast
  have "\<bar>y - a\<bar> \<le> 1 / (1000 * k)"
    using a k c(1,3) v(3) D(2,1) y1 y by (rule round_trip_arith)
  moreover have "fmul (Finite s a) (Finite False k) = Finite s v"
    by (simp add: v(1))
  ultimately show ?thesis
    using parsed by (simp only: exI [of _ y])
qed

lemma seconds_round_trip:
  assumes a: "0 \<le> a" "a \<le> 2 ^ 40"
  shows "\<exists>y. parse_duration (Some (format_fixed False 3 (Finite s a) @ '' '' @ ''s''))
          = Inr (Some (Finite s y))
        \<and> \<bar>y - a\<bar> \<le> 1 / 1000"
proof -
  have "(2::rat) ^ 40 < 2 ^ 100"
    by simp
  then have a_small: "a < 2 ^ 100"
    using a(2) by linarith
  have u: "''s'' \<in> set [''ns'', ''us'', ''ms'', ''s'']"
    by simp
  obtain D y1 y where
    parsed: "parse_duration (Some (format_fixed False 3 (Finite s a) @ '' '' @ ''s''))
      = Inr (Some (Finite s y))"
    and D: "0 \<le> D" "\<bar>D - a\<bar> \<le> 1 / 2000"
    and y1: "0 \<le> y1" "\<bar>y1 - D\<bar> \<le> D / 2 ^ 53 + 1 / 2 ^ 1075"
    and y: "\<bar>y - y1 * 1\<bar> \<le> y1 * 1 / 2 ^ 53 + 1 / 2 ^ 1075"
    using parse_formatted [OF a(1) a_small u duration_units(4), of s] by auto
  have h1: "a * 1 \<le> 2 ^ 40"
    using a(2) by simp
  have h2: "(1::rat) \<le> 1" "(1::rat) \<le> 10 ^ 9"
    by simp_all
  have h3: "(0::rat) \<le> 1" "\<bar>(1::rat) * 1 - 1\<bar> \<le> 1 / 2 ^ 53"
    by simp_all
  have h4: "\<bar>a - a * 1\<bar> \<le> a * 1 / 2 ^ 53 + 1 / 2 ^ 1075"
    using a(1) by simp
  have "\<bar>y - a\<bar> \<le> 1 / (1000 * 1)"
    using a(1) h1 h2 h3 h4 D(2,1) y1 y by (rule round_trip_arith)
  then show ?thesis
    using parsed by auto
qed

lemma round_trip_cases:
  assumes a: "0 \<le> a" "a < 2 ^ 40"
  shows "\<exists>t y. format_duration (Some (Finite s a)) = t @ '' '' @ selected_unit (Finite s a)
      \<and> parse_duration (Some (format_duration (Some (Finite s a)))) = Inr (Some (Finite s y))
      \<and> \<bar>y - a\<bar> \<le> unit_seconds (selected_unit (Finite s a)) / 1000"
proof -
  let ?x = "Finite s a"
  let ?c6 = "4722366482869645 / 2 ^ 72 :: rat"
  let ?c3 = "1152921504606847 / 2 ^ 60 :: rat"
  have shape: "\<exists>t y. format_duration (Some ?x) = t @ '' '' @ selected_unit ?x
      \<and> parse_duration (Some (format_duration (Some ?x))) = Inr (Some (Finite s y))
      \<and> \<bar>y - a\<bar> \<le> unit_seconds (selected_unit ?x) / 1000"
    if fmt: "format_duration (Some ?x) = format_fixed False 3 v @ '' '' @ u"
      and sel: "selected_unit ?x = u"
      and rt: "\<exists>y. parse_duration (Some (format_fixed False 3 v @ '' '' @ u)) = Inr (Some (Finite s y))
                 \<and> \<bar>y - a\<bar> \<le> unit_seconds u / 1000"
    for v u
    unfolding fmt sel using rt by blast
  consider (ns) "a < ?c6" | (us) "\<not> a < ?c6" "a < ?c3" | (ms) "\<not> a < ?c6" "\<not> a < ?c3" "a < 1"
    | (s) "\<not> a < ?c6" "\<not> a < ?c3" "\<not> a < 1"
    by blast
  then show ?thesis
  proof cases
    case ns
    have fmt: "format_duration (Some ?x)
        = format_fixed False 3 (fmul ?x (Finite False (10 ^ 9))) @ '' '' @ ''ns''"
      unfolding format_duration_def float_1e6 float_1e3 using ns by (simp add: signed_def)
    have sel: "selected_unit ?x = ''ns''"
      unfolding selected_unit_def float_1e6 float_1e3 using ns by (simp add: signed_def)
    have "a * 10 ^ 9 \<le> 2 ^ 40"
      using ns by simp
    from scaled_round_trip [OF a(1) this _ _ _ duration_units(1), of s]
    have "\<exists>y. parse_duration (Some (format_fixed False 3 (fmul ?x (Finite False (10 ^ 9))) @ '' '' @ ''ns''))
          = Inr (Some (Finite s y)) \<and> \<bar>y - a\<bar> \<le> unit_seconds ''ns'' / 1000"
      by (simp add: unit_seconds_def)
    with fmt sel show ?thesis by (rule shape)
  next
    case us
    have fmt: "format_duration (Some ?x)
        = format_fixed False 3 (fmul ?x (Finite False (10 ^ 6))) @ '' '' @ ''us''"
      unfolding format_duration_def float_1e6 float_1e3 using us by (simp add: signed_def)
    have sel: "selected_unit ?x = ''us''"
      unfolding selected_unit_def float_1e6 float_1e3 using us by (simp add: signed_def)
    have "a * 10 ^ 6 \<le> 2 ^ 40"
      using us by simp
    from scaled_round_trip [OF a(1) this _ _ _ duration_units(2), of s]
    have "\<exists>y. parse_duration (Some (format_fixed False 3 (fmul ?x (Finite False (10 ^ 6))) @ '' '' @ ''us''))
          = Inr (Some (Finite s y)) \<and> \<bar>y - a\<bar> \<le> unit_seconds ''us'' / 1000"
      by (simp add: unit_seconds_def)
    with fmt sel show ?thesis by (rule shape)
  next
    case ms
    have fmt: "format_duration (Some ?x)
        = format_fixed False 3 (fmul ?x (Finite False (10 ^ 3))) @ '' '' @ ''ms''"
      unfolding format_duration_def float_1e6 float_1e3 using ms by (simp add: signed_def)
    have sel: "selected_unit ?x = ''ms''"
      unfolding selected_unit_def float_1e6 float_1e3 using ms by (simp add: signed_def)
    have "a * 10 ^ 3 \<le> 2 ^ 40"
      using ms by simp
    from scaled_round_trip [OF a(1) this _ _ _ duration_units(3), of s]
    have "\<exists>y. parse_duration (Some (format_fixed False 3 (fmul ?x (Finite False (10 ^ 3))) @ '' '' @ ''ms''))
          = Inr (Some (Finite s y)) \<and> \<bar>y - a\<bar> \<le> unit_seconds ''ms'' / 1000"
      by (simp add: unit_seconds_def)
    with fmt sel show ?thesis by (rule shape)
  next
    case s
    have fmt: "format_duration (Some ?x) = format_fixed False 3 ?x @ '' '' @ ''s''"
      unfolding format_duration_def float_1e6 float_1e3 using s by (simp add: signed_def)
    have sel: "selected_unit ?x = ''s''"
      unfolding selected_unit_def float_1e6 float_1e3 using s by (simp add: signed_def)
    have "a \<le> 2 ^ 40"
      using a(2) by simp
    from seconds_round_trip [OF a(1) this, of s]
    have "\<exists>y. parse_duration (Some (format_fixed False 3 ?x @ '' '' @ ''s''))
          = Inr (Some (Finite s y)) \<and> \<bar>y - a\<bar> \<le> unit_seconds ''s'' / 1000"
      by (simp add: unit_seconds_def)
    with fmt sel show ?thesis by (rule shape)
  qed
qed

text \<open>
  Claim C3. Let \<open>x\<close> be a float of either sign with magnitude below \<open>2 ^ 40\<close> seconds,
  zero included. The text \<open>format_duration\<close> gives for \<open>x\<close> ends in a space and the unit
  the thresholds select; \<open>parse_duration\<close> of that text returns a float, not \<open>None\<close> and
  not an error, with the sign of \<open>x\<close>, and its magnitude differs from that of \<open>x\<close> by
  at most one thousandth of the unit, the last of the three decimals. The magnitude
  ranges over all rationals in the range, the floats among them.
\<close>

theorem duration_round_trip:
  assumes "0 \<le> a" "a < 2 ^ 40"
  shows "\<exists>t y. format_duration (Some (Finite s a)) = t @ '' '' @ selected_unit (Finite s a)
      \<and> parse_duration (Some (format_duration (Some (Finite s a)))) = Inr (Some (Finite s y))
      \<and> \<bar>y - a\<bar> \<le> unit_seconds (selected_unit (Finite s a)) / 1000"
  using assms by (rule round_trip_cases)

theorem duration_round_trip_witness:
  "(0::rat) \<le> 1 / 8192 \<and> (1::rat) / 8192 < 2 ^ 40
   \<and> (\<exists>t y. format_duration (Some (Finite False (1 / 8192)))
             = t @ '' '' @ selected_unit (Finite False (1 / 8192))
        \<and> parse_duration (Some (format_duration (Some (Finite False (1 / 8192)))))
             = Inr (Some (Finite False y))
        \<and> \<bar>y - 1 / 8192\<bar> \<le> unit_seconds (selected_unit (Finite False (1 / 8192))) / 1000)"
  using duration_round_trip [of "1 / 8192" False] by simp

end
